theory Spec2Isabelle
  imports
    Complex_Main
    "HOL-Library.AList"
    "HOL-Library.Char_ord"
    "HOL-Library.List_Lexorder"
    "HOL-Library.Multiset"
begin

section \<open>Data model\<close>

text \<open>
  The ingestion pipeline of the CSV storage service (\<^verbatim>\<open>utils.py\<close>, \<^verbatim>\<open>crud.py\<close>,
  \<^verbatim>\<open>main.py\<close>) works on a pandas data frame that was read with \<^verbatim>\<open>dtype=str\<close>: every cell
  is a string or the missing-value marker. A cell is a \<open>string option\<close>, \<open>None\<close> being
  the marker (pandas' NaN before normalisation, Python's \<^verbatim>\<open>None\<close> after it). Strings are
  \<open>char list\<close>s, a character standing for a code point below 256, compared
  lexicographically by code point as Python compares strings.

  A data frame is kept row by row: the column labels with the dtype name of each column,
  and the rows, each with its index label (its position in the file as parsed, which
  \<^verbatim>\<open>dropna\<close> keeps) and one cell per column.
\<close>

type_synonym cell = "string option"

record table =
  columns :: "(string \<times> string) list"
  rows :: "(nat \<times> cell list) list"

definition wf_table :: "table \<Rightarrow> bool" where
  "wf_table t = list_all (\<lambda>r. length (snd r) = length (columns t)) (rows t)"

definition col_names :: "table \<Rightarrow> string list" where
  "col_names t = map fst (columns t)"

text \<open>The cells of the column at position \<open>j\<close>, in row order.\<close>

definition col_cells :: "table \<Rightarrow> nat \<Rightarrow> cell list" where
  "col_cells t j = map (\<lambda>r. snd r ! j) (rows t)"

text \<open>
  \<^verbatim>\<open>df[col]\<close>: a series (dtype name and the cells with their index labels) when the label
  names one column. When it names several, pandas returns a data frame, and the next
  operation of each caller below raises. The callers only pass labels of the frame.
\<close>

record series =
  dtype :: string
  items :: "(nat \<times> cell) list"

definition getitem :: "table \<Rightarrow> string \<Rightarrow> series option" where
  "getitem t col =
     (case filter (\<lambda>j. fst (columns t ! j) = col) [0..<length (columns t)] of
        [j] \<Rightarrow> Some \<lparr>dtype = snd (columns t ! j),
                      items = map (\<lambda>r. (fst r, snd r ! j)) (rows t)\<rparr>
      | _ \<Rightarrow> None)"

datatype error =
    HTTPException nat detail
  | ValueError
  | AttributeError
  | ParserError
  | StorageError
  | ResponseValidationError
and detail = Text string | Str error

section \<open>utils.py\<close>

subsection \<open>Hashing\<close>

text \<open>
  SHA-256 (\<^verbatim>\<open>hashlib\<close>) is a parameter \<open>sha\<close> of the model, from the bytes to the hex digest.
\<close>

definition calculate_file_hash :: "(string \<Rightarrow> string) \<Rightarrow> string \<Rightarrow> string" where
  "calculate_file_hash sha content = sha content"

text \<open>
  \<^verbatim>\<open>json.dumps(row_data, sort_keys=True)\<close> with the default separators and
  \<^verbatim>\<open>ensure_ascii\<close>: a string is quoted, with the quote, the backslash and every character
  outside \<open>' '..'~'\<close> escaped; \<^verbatim>\<open>None\<close> is the token \<^verbatim>\<open>null\<close>; the items are sorted by key
  and joined by \<^verbatim>\<open>", "\<close>, key and value by \<^verbatim>\<open>": "\<close>. A Python dict is an association list
  with distinct keys in insertion order.
\<close>

definition hex_digit :: "nat \<Rightarrow> char" where
  "hex_digit n = ''0123456789abcdef'' ! (n mod 16)"

definition json_escape_char :: "char \<Rightarrow> string" where
  "json_escape_char c =
     (if c = CHR 0x22 then [CHR 0x5C, CHR 0x22]
      else if c = CHR 0x5C then [CHR 0x5C, CHR 0x5C]
      else if c = CHR 0x0A then [CHR 0x5C, CHR ''n'']
      else if c = CHR 0x0D then [CHR 0x5C, CHR ''r'']
      else if c = CHR 0x09 then [CHR 0x5C, CHR ''t'']
      else if c = CHR 0x08 then [CHR 0x5C, CHR ''b'']
      else if c = CHR 0x0C then [CHR 0x5C, CHR ''f'']
      else if (of_char c :: nat) < 32 \<or> 126 < (of_char c :: nat)
        then [CHR 0x5C, CHR ''u'', CHR ''0'', CHR ''0'',
              hex_digit (of_char c div 16), hex_digit (of_char c)]
      else [c])"

definition json_string :: "string \<Rightarrow> string" where
  "json_string s = [CHR 0x22] @ concat (map json_escape_char s) @ [CHR 0x22]"

definition json_value :: "cell \<Rightarrow> string" where
  "json_value v = (case v of None \<Rightarrow> ''null'' | Some s \<Rightarrow> json_string s)"

definition json_item :: "string \<times> cell \<Rightarrow> string" where
  "json_item kv = json_string (fst kv) @ '': '' @ json_value (snd kv)"

fun join :: "string \<Rightarrow> string list \<Rightarrow> string" where
  "join sep [] = []"
| "join sep [x] = x"
| "join sep (x # y # ys) = x @ sep @ join sep (y # ys)"

definition json_dumps_sorted :: "(string \<times> cell) list \<Rightarrow> string" where
  "json_dumps_sorted d = ''{'' @ join '', '' (map json_item (sort_key fst d)) @ ''}''"

text \<open>
  \<^verbatim>\<open>row_string.encode()\<close> is the identity here: the serialisation is ASCII only.
\<close>

definition calculate_row_hash :: "(string \<Rightarrow> string) \<Rightarrow> (string \<times> cell) list \<Rightarrow> string" where
  "calculate_row_hash sha row_data = sha (json_dumps_sorted row_data)"

subsection \<open>validate_and_clean_data\<close>

text \<open>
  The entries of the error log. \<open>AllNullColumns\<close> carries the column names and the
  \<^verbatim>\<open>action\<close> string.
\<close>

datatype error_entry =
    EmptyRows nat "nat list"
  | DuplicateColumns "string list"
  | AllNullColumns "string list" string

definition row_all_null :: "nat \<times> cell list \<Rightarrow> bool" where
  "row_all_null r = list_all (\<lambda>c. c = None) (snd r)"

text \<open>
  \<^verbatim>\<open>df.columns[df.columns.duplicated()]\<close>: every occurrence of a label after its first.
\<close>

fun duplicated_labels :: "string list \<Rightarrow> string list \<Rightarrow> string list" where
  "duplicated_labels seen [] = []"
| "duplicated_labels seen (x # xs) =
     (if x \<in> set seen then x # duplicated_labels seen xs
      else duplicated_labels (x # seen) xs)"

text \<open>
  \<^verbatim>\<open>df.columns[df.isnull().all()]\<close>: the labels of the columns all of whose cells are
  missing, by position.
\<close>

definition col_all_null :: "table \<Rightarrow> nat \<Rightarrow> bool" where
  "col_all_null t j = list_all (\<lambda>c. c = None) (col_cells t j)"

definition all_null_cols :: "table \<Rightarrow> string list" where
  "all_null_cols t =
     map (\<lambda>j. fst (columns t ! j)) (filter (col_all_null t) [0..<length (columns t)])"

text \<open>
  \<^verbatim>\<open>df.columns = new\<close>: pandas raises \<^verbatim>\<open>ValueError\<close> when the number of labels is not
  the number of columns.
\<close>

definition set_columns :: "table \<Rightarrow> string list \<Rightarrow> error + table" where
  "set_columns t new =
     (if length new = length (columns t)
      then Inr (t\<lparr>columns := map2 (\<lambda>n c. (n, snd c)) new (columns t)\<rparr>)
      else Inl ValueError)"

text \<open>
  The renaming of repeated labels is pandas' own \<^verbatim>\<open>_maybe_dedup_names\<close>, a parameter
  \<open>dedup\<close> of the model. The three checks follow the source in order; each appends to the
  error log.
\<close>

definition validate_and_clean_data ::
  "(string list \<Rightarrow> string list) \<Rightarrow> table \<Rightarrow> error + (table \<times> error_entry list)" where
  "validate_and_clean_data dedup df =
     (let errors = [];
          empty_rows = filter row_all_null (rows df);
          (df, errors) =
            (if length empty_rows > 0
             then (df\<lparr>rows := filter (\<lambda>r. \<not> row_all_null r) (rows df)\<rparr>,
                   errors @ [EmptyRows (length empty_rows) (map fst empty_rows)])
             else (df, errors));
          duplicate_cols = duplicated_labels [] (col_names df)
      in case (if duplicate_cols \<noteq> []
               then (case set_columns df (dedup (col_names df)) of
                       Inl e \<Rightarrow> Inl e
                     | Inr df' \<Rightarrow> Inr (df', errors @ [DuplicateColumns duplicate_cols]))
               else Inr (df, errors)) of
           Inl e \<Rightarrow> Inl e
         | Inr (df, errors) \<Rightarrow>
             (let all_null = all_null_cols df
              in Inr (df, if all_null \<noteq> []
                          then errors @ [AllNullColumns all_null ''kept_for_schema_integrity'']
                          else errors)))"

section \<open>crud.py\<close>

subsection \<open>The store\<close>

text \<open>
  The three tables of \<^verbatim>\<open>models.py\<close>. Timestamps are left out. The session holds the
  committed store and the view of the open transaction (\<open>pending\<close>): \<^verbatim>\<open>db.add\<close> and
  \<^verbatim>\<open>db.flush\<close> change the view only, \<^verbatim>\<open>db.commit\<close> makes it the committed store,
  \<^verbatim>\<open>db.rollback\<close> discards it.
\<close>

record col_missing =
  count :: nat
  percentage :: rat
  positions :: "nat list"

record missing_report =
  has_missing :: bool
  total_missing_cells :: nat
  columns_with_missing :: "(string \<times> col_missing) list"

record dataset_metadata =
  meta_id :: nat
  dataset_name :: string
  original_filename :: string
  row_count :: nat
  column_count :: nat
  file_hash :: string
  schema_definition :: "(string \<times> string) list"
  has_missing_values :: bool
  missing_value_report :: missing_report
  duplicate_count :: nat
  error_log :: "error_entry list"
  description :: "string option"

record data_row =
  row_dataset_id :: nat
  row_number :: nat
  data_json :: "(string \<times> cell) list"
  row_hash :: string
  row_has_missing_values :: bool
  is_duplicate :: bool

record column_index =
  index_dataset_id :: nat
  column_name :: string
  data_type :: string
  distinct_count :: nat
  min_value :: "string option"
  max_value :: "string option"
  sample_values :: "string list"

record store =
  datasets :: "dataset_metadata list"
  data_rows :: "data_row list"
  column_indexes :: "column_index list"

record session =
  committed :: store
  pending :: store

definition add_data_row :: "data_row \<Rightarrow> session \<Rightarrow> session" where
  "add_data_row r db = db\<lparr>pending := (pending db)\<lparr>data_rows := data_rows (pending db) @ [r]\<rparr>\<rparr>"

definition add_column_index :: "column_index \<Rightarrow> session \<Rightarrow> session" where
  "add_column_index c db =
     db\<lparr>pending := (pending db)\<lparr>column_indexes := column_indexes (pending db) @ [c]\<rparr>\<rparr>"

definition rollback :: "session \<Rightarrow> session" where
  "rollback db = db\<lparr>pending := committed db\<rparr>"

definition get_dataset_by_name :: "session \<Rightarrow> string \<Rightarrow> dataset_metadata option" where
  "get_dataset_by_name db name = find (\<lambda>m. dataset_name m = name) (datasets (pending db))"

definition get_dataset_by_hash :: "session \<Rightarrow> string \<Rightarrow> dataset_metadata option" where
  "get_dataset_by_hash db h = find (\<lambda>m. file_hash m = h) (datasets (pending db))"

subsection \<open>insert_data_rows\<close>

text \<open>
  \<^verbatim>\<open>row.to_dict()\<close> followed by the null-normalising comprehension: the dict of the row,
  built label by label (a repeated label keeps its first position and its last value).
\<close>

definition row_to_dict :: "string list \<Rightarrow> cell list \<Rightarrow> (string \<times> cell) list" where
  "row_to_dict names cells = fold (\<lambda>(k, v) d. AList.update k v d) (zip names cells) []"

text \<open>
  One pass of the loop body. The loop state is the set of hashes seen, the duplicate
  count and the session.
\<close>

definition insert_row ::
  "(string \<Rightarrow> string) \<Rightarrow> nat \<Rightarrow> string list \<Rightarrow> nat \<times> cell list \<Rightarrow>
   string set \<times> nat \<times> session \<Rightarrow> string set \<times> nat \<times> session" where
  "insert_row sha did names r st =
     (case st of (row_hashes, dup_count, db) \<Rightarrow>
        (let row_dict = row_to_dict names (snd r);
             h = calculate_row_hash sha row_dict;
             is_dup = (h \<in> row_hashes);
             dup_count = (if is_dup then dup_count + 1 else dup_count);
             row_hashes = insert h row_hashes;
             data_row = \<lparr>row_dataset_id = did, row_number = fst r, data_json = row_dict,
                         row_hash = h,
                         row_has_missing_values = list_ex (\<lambda>v. v = None) (map snd row_dict),
                         is_duplicate = is_dup\<rparr>
         in (row_hashes, dup_count, add_data_row data_row db)))"

definition insert_data_rows ::
  "(string \<Rightarrow> string) \<Rightarrow> session \<Rightarrow> nat \<Rightarrow> table \<Rightarrow> nat \<times> session" where
  "insert_data_rows sha db did df =
     (case fold (insert_row sha did (col_names df)) (rows df) ({}, 0, db) of
        (row_hashes, dup_count, db') \<Rightarrow> (dup_count, db'))"


subsection \<open>build_column_index\<close>

text \<open>
  The index entry of one column. \<^verbatim>\<open>df[col].dtype\<close> raises \<^verbatim>\<open>AttributeError\<close> when the label
  names several columns. \<open>col_data\<close> is \<^verbatim>\<open>df[col].dropna()\<close>; \<^verbatim>\<open>nunique()\<close> counts the
  distinct values that are not missing; \<^verbatim>\<open>min\<close> and \<^verbatim>\<open>max\<close> compare strings.
\<close>

definition column_index_entry :: "nat \<Rightarrow> table \<Rightarrow> string \<Rightarrow> error + column_index" where
  "column_index_entry did df col =
     (case getitem df col of
        None \<Rightarrow> Inl AttributeError
      | Some s \<Rightarrow>
          (let col_data = concat (map (\<lambda>(i, v). case v of None \<Rightarrow> [] | Some x \<Rightarrow> [x]) (items s))
           in Inr \<lparr>index_dataset_id = did,
                   column_name = col,
                   data_type = dtype s,
                   distinct_count = length (remdups col_data),
                   min_value = (if length col_data > 0
                                then Some (fold min (tl col_data) (hd col_data)) else None),
                   max_value = (if length col_data > 0
                                then Some (fold max (tl col_data) (hd col_data)) else None),
                   sample_values = (if length col_data > 0 then take 10 col_data else [])\<rparr>))"

fun build_column_index_loop ::
  "nat \<Rightarrow> table \<Rightarrow> string list \<Rightarrow> session \<Rightarrow> (error + unit) \<times> session" where
  "build_column_index_loop did df [] db = (Inr (), db)"
| "build_column_index_loop did df (col # cols) db =
     (case column_index_entry did df col of
        Inl e \<Rightarrow> (Inl e, db)
      | Inr col_index \<Rightarrow> build_column_index_loop did df cols (add_column_index col_index db))"

definition build_column_index :: "session \<Rightarrow> nat \<Rightarrow> table \<Rightarrow> (error + unit) \<times> session" where
  "build_column_index db did df = build_column_index_loop did df (col_names df) db"

subsection \<open>create_dataset_metadata\<close>

text \<open>
  The new record gets its key and the column default of \<^verbatim>\<open>duplicate_count\<close> when it is
  flushed. Whether the storage accepts the flush is a parameter; a refused flush raises,
  with the record still pending in the session.
\<close>

definition fresh_id :: "dataset_metadata list \<Rightarrow> nat" where
  "fresh_id ms = Suc (fold max (map meta_id ms) 0)"

definition add_dataset :: "dataset_metadata \<Rightarrow> session \<Rightarrow> session" where
  "add_dataset m db = db\<lparr>pending := (pending db)\<lparr>datasets := datasets (pending db) @ [m]\<rparr>\<rparr>"

definition create_dataset_metadata ::
  "bool \<Rightarrow> session \<Rightarrow> dataset_metadata \<Rightarrow> (error + dataset_metadata) \<times> session" where
  "create_dataset_metadata flush_accepted db metadata_data =
     (if flush_accepted
      then (let metadata = metadata_data\<lparr>meta_id := fresh_id (datasets (pending db)),
                                            duplicate_count := 0\<rparr>
            in (Inr metadata, add_dataset metadata db))
      else (Inl StorageError, add_dataset metadata_data db))"

section \<open>utils.py, continued\<close>

subsection \<open>detect_missing_values\<close>

text \<open>
  The loop state is \<open>has_missing\<close> and the per-column report. On a label that names several
  columns \<^verbatim>\<open>null_count\<close> is a series and \<^verbatim>\<open>if null_count > 0\<close> raises \<^verbatim>\<open>ValueError\<close>. The
  percentage is the exact quotient; the source rounds it to a float.
\<close>

fun detect_missing_loop ::
  "table \<Rightarrow> string list \<Rightarrow> bool \<times> (string \<times> col_missing) list \<Rightarrow>
   error + (bool \<times> (string \<times> col_missing) list)" where
  "detect_missing_loop df [] st = Inr st"
| "detect_missing_loop df (col # cols) st =
     (case getitem df col of
        None \<Rightarrow> Inl ValueError
      | Some s \<Rightarrow>
          (let nulls = filter (\<lambda>iv. snd iv = None) (items s);
               null_count = length nulls
           in if null_count > 0
              then detect_missing_loop df cols
                     (True,
                      AList.update col
                        \<lparr>count = null_count,
                         percentage = of_nat null_count / of_nat (length (rows df)) * 100,
                         positions = take 100 (map fst nulls)\<rparr>
                        (snd st))
              else detect_missing_loop df cols st))"

definition detect_missing_values :: "table \<Rightarrow> error + missing_report" where
  "detect_missing_values df =
     (case detect_missing_loop df (col_names df) (False, []) of
        Inl e \<Rightarrow> Inl e
      | Inr (has, report) \<Rightarrow>
          Inr \<lparr>has_missing = has,
               total_missing_cells =
                 length (filter (\<lambda>c. c = None) (concat (map snd (rows df)))),
               columns_with_missing = report\<rparr>)"

subsection \<open>infer_schema\<close>

definition startswith :: "string \<Rightarrow> string \<Rightarrow> bool" where
  "startswith s p = (take (length p) s = p)"

definition logical_type :: "string \<Rightarrow> string" where
  "logical_type dt =
     (if startswith dt ''int'' then ''integer''
      else if startswith dt ''float'' then ''float''
      else if dt = ''bool'' then ''boolean''
      else if dt = ''datetime64[ns]'' then ''datetime''
      else ''string'')"

fun infer_schema_loop ::
  "table \<Rightarrow> string list \<Rightarrow> (string \<times> string) list \<Rightarrow> error + (string \<times> string) list" where
  "infer_schema_loop df [] schema = Inr schema"
| "infer_schema_loop df (col # cols) schema =
     (case getitem df col of
        None \<Rightarrow> Inl AttributeError
      | Some s \<Rightarrow> infer_schema_loop df cols (AList.update col (logical_type (dtype s)) schema))"

definition infer_schema :: "table \<Rightarrow> error + (string \<times> string) list" where
  "infer_schema df = infer_schema_loop df (col_names df) []"


section \<open>main.py\<close>

text \<open>
  The first parser call is \<^verbatim>\<open>pd.read_csv(..., dtype=str, keep_default_na=False)\<close>. With
  these two arguments pandas converts no field to a number and none to the missing-value
  marker: what it delivers is a rectangle of strings under a row of labels, the rows
  numbered from 0, every column of the one dtype pandas gives to strings. That is the
  type \<open>parsed\<close>: the labels, the dtype name, the number of rows and the string at each
  row and column. \<open>frame_of\<close> is the data frame it stands for.
\<close>

record parsed =
  labels :: "string list"
  cell_dtype :: string
  n_rows :: nat
  cell_at :: "nat \<Rightarrow> nat \<Rightarrow> string"

definition frame_of :: "parsed \<Rightarrow> table" where
  "frame_of p =
     \<lparr>columns = map (\<lambda>l. (l, cell_dtype p)) (labels p),
      rows = map (\<lambda>i. (i, map (\<lambda>j. Some (cell_at p i j)) [0..<length (labels p)]))
                 [0..<n_rows p]\<rparr>"

text \<open>
  What the endpoints take from outside the repository is gathered in one record:
  the digest, the two calls of the CSV parser (\<open>None\<close> when the call raises; the second
  call keeps the default conversion to the missing-value marker, so its frame may hold
  it), the renaming of repeated labels, the formatted clock reading, whether the storage
  accepts the flush and the commit, and what the database does with a negative
  \<^verbatim>\<open>OFFSET\<close> or \<^verbatim>\<open>LIMIT\<close> (\<open>None\<close> when it rejects them).
\<close>

record env =
  sha256 :: "string \<Rightarrow> string"
  read_csv :: "string \<Rightarrow> parsed option"
  read_csv_latin1 :: "string \<Rightarrow> table option"
  dedup_names :: "string list \<Rightarrow> string list"
  now_stamp :: string
  flush_ok :: bool
  commit_ok :: bool
  negative_window :: "int \<Rightarrow> int \<Rightarrow> data_row list \<Rightarrow> data_row list option"

record upload =
  content :: string
  filename :: string
  dataset_name_param :: "string option"
  description_param :: "string option"

record upload_response =
  resp_status :: string
  resp_dataset_id :: nat
  resp_dataset_name :: string
  resp_rows_inserted :: nat
  resp_columns :: nat
  resp_duplicate_rows :: nat
  resp_has_missing_values :: bool
  resp_errors_detected :: nat
  resp_schema :: "(string \<times> string) list"

record data_response =
  data_dataset_name :: string
  total_rows :: nat
  returned_rows :: nat
  data :: "(string \<times> cell) list list"

text \<open>
  The status of a reply: 200 for a returned body, the code of an \<^verbatim>\<open>HTTPException\<close>, and
  500 for any other exception that leaves the endpoint.
\<close>

fun status_code :: "error + 'a \<Rightarrow> nat" where
  "status_code (Inr r) = 200"
| "status_code (Inl (HTTPException code d)) = code"
| "status_code (Inl e) = 500"

subsection \<open>Response models\<close>

text \<open>
  An endpoint declared with \<^verbatim>\<open>response_model\<close> has the dict its function returns checked
  against the model by the framework, after the function has returned: a required field
  of the model that is not a key of the dict fails the check, and the reply is an
  internal error. The field lists are those of \<^verbatim>\<open>schemas.py\<close>, the key lists those of
  the dicts returned in \<^verbatim>\<open>main.py\<close>. An exception of the function passes through.
\<close>

definition DatasetUploadResponse_fields :: "string list" where
  "DatasetUploadResponse_fields =
     [''status'', ''dataset_id'', ''dataset_name'', ''rows_inserted'', ''columns'',
      ''duplicate_rows'', ''has_missing_values'', ''missing_value_summary'',
      ''errors_detected'', ''schema'']"

definition upload_csv_keys :: "string list" where
  "upload_csv_keys =
     [''status'', ''dataset_id'', ''dataset_name'', ''rows_inserted'', ''columns'',
      ''duplicate_rows'', ''has_missing_values'', ''errors_detected'', ''schema'']"

definition DataResponse_fields :: "string list" where
  "DataResponse_fields = [''dataset_name'', ''total_rows'', ''returned_rows'', ''data'']"

definition get_data_keys :: "string list" where
  "get_data_keys = [''dataset_name'', ''total_rows'', ''returned_rows'', ''data'']"

definition response_model :: "string list \<Rightarrow> string list \<Rightarrow> error + 'a \<Rightarrow> error + 'a" where
  "response_model required keys r =
     (case r of
        Inl ex \<Rightarrow> Inl ex
      | Inr body \<Rightarrow>
          if list_all (\<lambda>f. f \<in> set keys) required then Inr body
          else Inl ResponseValidationError)"

subsection \<open>upload_csv\<close>

text \<open>
  The first parser call, which raises on a file without columns, and the
  \<^verbatim>\<open>try\<close>/\<^verbatim>\<open>except\<close> around the two parser calls.
\<close>

definition primary_parse :: "env \<Rightarrow> string \<Rightarrow> table option" where
  "primary_parse e bytes =
     (case read_csv e bytes of
        None \<Rightarrow> None
      | Some p \<Rightarrow> if labels p = [] then None else Some (frame_of p))"

definition parse_csv :: "env \<Rightarrow> string \<Rightarrow> error + table" where
  "parse_csv e bytes =
     (case primary_parse e bytes of
        Some df \<Rightarrow> Inr df
      | None \<Rightarrow> (case read_csv_latin1 e bytes of Some df \<Rightarrow> Inr df | None \<Rightarrow> Inl ParserError))"

text \<open>\<^verbatim>\<open>file.filename.replace(".csv", "")\<close>: every occurrence is removed, left to right.\<close>

fun remove_csv :: "string \<Rightarrow> string" where
  "remove_csv [] = []"
| "remove_csv (c # cs) =
     (if take 4 (c # cs) = ''.csv'' then remove_csv (drop 3 cs) else c # remove_csv cs)"

definition commit :: "bool \<Rightarrow> session \<Rightarrow> (error + unit) \<times> session" where
  "commit accepted db =
     (if accepted then (Inr (), db\<lparr>committed := pending db\<rparr>) else (Inl StorageError, db))"

text \<open>\<^verbatim>\<open>metadata.duplicate_count = duplicate_count\<close> on the record that was flushed.\<close>

definition set_duplicate_count :: "nat \<Rightarrow> nat \<Rightarrow> session \<Rightarrow> session" where
  "set_duplicate_count mid n db =
     db\<lparr>pending := (pending db)
       \<lparr>datasets := map (\<lambda>m. if meta_id m = mid then m\<lparr>duplicate_count := n\<rparr> else m)
                        (datasets (pending db))\<rparr>\<rparr>"

text \<open>
  The body of the \<^verbatim>\<open>try\<close> block, statement by statement. A raise is an \<open>Inl\<close>, returned
  with the session as it is at that moment.
\<close>

definition upload_csv_try :: "env \<Rightarrow> session \<Rightarrow> upload \<Rightarrow> (error + upload_response) \<times> session" where
  "upload_csv_try e db file =
     (let file_hash = calculate_file_hash (sha256 e) (content file)
      in case get_dataset_by_hash db file_hash of
        Some match \<Rightarrow>
          (Inl (HTTPException 409
                  (Text (''Duplicate file. Already stored as: '' @ dataset_name match))), db)
      | None \<Rightarrow>
     (case parse_csv e (content file) of
        Inl ex \<Rightarrow> (Inl ex, db)
      | Inr df \<Rightarrow>
     (case validate_and_clean_data (dedup_names e) df of
        Inl ex \<Rightarrow> (Inl ex, db)
      | Inr (df, errors) \<Rightarrow>
     (case detect_missing_values df of
        Inl ex \<Rightarrow> (Inl ex, db)
      | Inr missing \<Rightarrow>
     (case infer_schema df of
        Inl ex \<Rightarrow> (Inl ex, db)
      | Inr schema \<Rightarrow>
     (let auto_name = remove_csv (filename file) @ ''_'' @ now_stamp e;
          name = (case dataset_name_param file of
                    None \<Rightarrow> auto_name
                  | Some n \<Rightarrow> if n = [] then auto_name else n)
      in if get_dataset_by_name db name \<noteq> None
         then (Inl (HTTPException 400 (Text ''Dataset name already exists'')), db)
         else
     (let metadata_info =
            \<lparr>meta_id = 0,
             dataset_name = name,
             original_filename = filename file,
             row_count = length (rows df),
             column_count = length (columns df),
             file_hash = file_hash,
             schema_definition = schema,
             has_missing_values = has_missing missing,
             missing_value_report = missing,
             duplicate_count = 0,
             error_log = errors,
             description = description_param file\<rparr>
      in case create_dataset_metadata (flush_ok e) db metadata_info of
        (Inl ex, db) \<Rightarrow> (Inl ex, db)
      | (Inr metadata, db) \<Rightarrow>
     (case insert_data_rows (sha256 e) db (meta_id metadata) df of
        (dup_count, db) \<Rightarrow>
     (let db = set_duplicate_count (meta_id metadata) dup_count db
      in case build_column_index db (meta_id metadata) df of
        (Inl ex, db) \<Rightarrow> (Inl ex, db)
      | (Inr u, db) \<Rightarrow>
     (case commit (commit_ok e) db of
        (Inl ex, db) \<Rightarrow> (Inl ex, db)
      | (Inr u, db) \<Rightarrow>
          (Inr \<lparr>resp_status = ''success'',
                resp_dataset_id = meta_id metadata,
                resp_dataset_name = name,
                resp_rows_inserted = length (rows df),
                resp_columns = length (columns df),
                resp_duplicate_rows = dup_count,
                resp_has_missing_values = has_missing missing,
                resp_errors_detected = length errors,
                resp_schema = schema\<rparr>, db)))))))))))"

text \<open>
  The function with its \<^verbatim>\<open>except\<close> clause: \<^verbatim>\<open>except Exception\<close> takes every exception of
  the body, the \<^verbatim>\<open>HTTPException\<close>s raised there included, rolls back and raises an
  \<^verbatim>\<open>HTTPException\<close> with status 500 whose detail is the text of the exception caught.
\<close>

definition upload_csv_handler ::
  "env \<Rightarrow> session \<Rightarrow> upload \<Rightarrow> (error + upload_response) \<times> session" where
  "upload_csv_handler e db file =
     (case upload_csv_try e db file of
        (Inr r, db') \<Rightarrow> (Inr r, db')
      | (Inl ex, db') \<Rightarrow> (Inl (HTTPException 500 (Str ex)), rollback db'))"

text \<open>
  The endpoint \<^verbatim>\<open>POST /upload-csv/\<close>: the function, then the check of the returned dict
  against \<^verbatim>\<open>DatasetUploadResponse\<close>. The check comes after \<^verbatim>\<open>db.commit()\<close> and outside
  the \<^verbatim>\<open>try\<close> block, so the session is the one the function left.
\<close>

definition upload_csv :: "env \<Rightarrow> session \<Rightarrow> upload \<Rightarrow> (error + upload_response) \<times> session" where
  "upload_csv e db file =
     (case upload_csv_handler e db file of
        (r, db') \<Rightarrow> (response_model DatasetUploadResponse_fields upload_csv_keys r, db'))"

subsection \<open>get_data\<close>

text \<open>The query on the rows of one dataset, with the optional duplicate filter.\<close>

definition data_query :: "session \<Rightarrow> nat \<Rightarrow> bool \<Rightarrow> data_row list" where
  "data_query db did exclude_duplicates =
     (let query = filter (\<lambda>r. row_dataset_id r = did) (data_rows (pending db))
      in if exclude_duplicates then filter (\<lambda>r. is_duplicate r = False) query else query)"

text \<open>
  \<^verbatim>\<open>query.offset(offset).limit(limit).all()\<close>: the first \<open>offset\<close> rows are skipped and at
  most \<open>limit\<close> of the rest returned. What a negative value does is the database's.
\<close>

definition offset_limit :: "env \<Rightarrow> int \<Rightarrow> int \<Rightarrow> data_row list \<Rightarrow> data_row list option" where
  "offset_limit e offset limit q =
     (if 0 \<le> offset \<and> 0 \<le> limit then Some (take (nat limit) (drop (nat offset) q))
      else negative_window e offset limit q)"

definition get_data_handler ::
  "env \<Rightarrow> session \<Rightarrow> string \<Rightarrow> int \<Rightarrow> int \<Rightarrow> bool \<Rightarrow> error + data_response" where
  "get_data_handler e db name limit offset exclude_duplicates =
     (case get_dataset_by_name db name of
        None \<Rightarrow> Inl (HTTPException 404 (Text ''Dataset not found''))
      | Some dataset \<Rightarrow>
          (case offset_limit e offset limit (data_query db (meta_id dataset) exclude_duplicates) of
             None \<Rightarrow> Inl StorageError
           | Some rs \<Rightarrow>
               Inr \<lparr>data_dataset_name = name,
                    total_rows = row_count dataset,
                    returned_rows = length rs,
                    data = map data_json rs\<rparr>))"

text \<open>The endpoint: the function, then the check against \<^verbatim>\<open>DataResponse\<close>.\<close>

definition get_data ::
  "env \<Rightarrow> session \<Rightarrow> string \<Rightarrow> int \<Rightarrow> int \<Rightarrow> bool \<Rightarrow> error + data_response" where
  "get_data e db name limit offset exclude_duplicates =
     response_model DataResponse_fields get_data_keys
       (get_data_handler e db name limit offset exclude_duplicates)"

section \<open>Notions used in the statements\<close>

text \<open>
  What one call added to the session: the data rows and the index entries that are in
  the view of the transaction after the call and were not there before. \<open>hash_of_row\<close>
  is the hash the loop of \<open>insert_data_rows\<close> computes for a row of the frame. A frame has
  \<open>no_null_cells\<close> when none of its cells is the missing-value marker.
\<close>

definition inserted_rows :: "session \<Rightarrow> session \<Rightarrow> data_row list" where
  "inserted_rows db db' = drop (length (data_rows (pending db))) (data_rows (pending db'))"

definition added_index :: "session \<Rightarrow> session \<Rightarrow> column_index list" where
  "added_index db db' = drop (length (column_indexes (pending db))) (column_indexes (pending db'))"

definition no_null_cells :: "table \<Rightarrow> bool" where
  "no_null_cells t = list_all (\<lambda>r. list_all (\<lambda>c. c \<noteq> None) (snd r)) (rows t)"

definition hash_of_row :: "(string \<Rightarrow> string) \<Rightarrow> table \<Rightarrow> nat \<times> cell list \<Rightarrow> string" where
  "hash_of_row sha df r = calculate_row_hash sha (row_to_dict (col_names df) (snd r))"

text \<open>
  \<open>rebind a w\<close> is the effect of assigning \<open>w\<close> to the key \<open>a\<close> on one item of a dict.
\<close>

definition rebind :: "string \<Rightarrow> cell \<Rightarrow> string \<times> cell \<Rightarrow> string \<times> cell" where
  "rebind a w kv = (if fst kv = a then (a, w) else kv)"

section \<open>Example inputs\<close>

text \<open>
  Small frames, a stand-in for the parser that knows four files, a database that treats
  a negative \<^verbatim>\<open>LIMIT\<close> as no limit and a negative \<^verbatim>\<open>OFFSET\<close> as 0, and an environment
  whose digest is the identity. They serve to run the definitions on concrete inputs.
\<close>

definition empty_store :: store where
  "empty_store = \<lparr>datasets = [], data_rows = [], column_indexes = []\<rparr>"

definition empty_session :: session where
  "empty_session = \<lparr>committed = empty_store, pending = empty_store\<rparr>"

definition people3 :: table where
  "people3 = \<lparr>columns = [(''name'', ''object''), (''age'', ''object'')],
     rows = [(0, [Some ''John'', Some ''30'']), (1, [Some ''Jane'', None]),
             (2, [Some ''John'', Some ''30''])]\<rparr>"

definition people2 :: table where
  "people2 = \<lparr>columns = [(''name'', ''object''), (''age'', ''object''), (''city'', ''object'')],
     rows = [(0, [Some ''John'', Some ''30'', Some ''NYC'']),
             (1, [Some ''Jane'', Some ''25'', Some ''LA''])]\<rparr>"

definition header_only :: table where
  "header_only = \<lparr>columns = [(''a'', ''object'')], rows = []\<rparr>"

definition people2_csv :: string where
  "people2_csv = ''name,age,city\<newline>John,30,NYC\<newline>Jane,25,LA''"

definition single_csv :: string where
  "single_csv = ''k\<newline>u''"

definition repeats_csv :: string where
  "repeats_csv = ''k\<newline>v\<newline>w\<newline>v''"

definition people2_parsed :: parsed where
  "people2_parsed =
     \<lparr>labels = [''name'', ''age'', ''city''], cell_dtype = ''object'', n_rows = 2,
      cell_at = (\<lambda>i j. [[''John'', ''30'', ''NYC''], [''Jane'', ''25'', ''LA'']] ! i ! j)\<rparr>"

definition header_only_parsed :: parsed where
  "header_only_parsed =
     \<lparr>labels = [''a''], cell_dtype = ''object'', n_rows = 0, cell_at = (\<lambda>i j. [])\<rparr>"

definition single_parsed :: parsed where
  "single_parsed =
     \<lparr>labels = [''k''], cell_dtype = ''object'', n_rows = 1, cell_at = (\<lambda>i j. ''u'')\<rparr>"

definition repeats_parsed :: parsed where
  "repeats_parsed =
     \<lparr>labels = [''k''], cell_dtype = ''object'', n_rows = 3,
      cell_at = (\<lambda>i j. [''v'', ''w'', ''v''] ! i)\<rparr>"

definition sample_parser :: "string \<Rightarrow> parsed option" where
  "sample_parser bytes =
     (if bytes = people2_csv then Some people2_parsed
      else if bytes = ''a\<newline>'' then Some header_only_parsed
      else if bytes = single_csv then Some single_parsed
      else if bytes = repeats_csv then Some repeats_parsed
      else None)"

definition lenient_window :: "int \<Rightarrow> int \<Rightarrow> data_row list \<Rightarrow> data_row list option" where
  "lenient_window offset limit q =
     Some (if limit < 0 then drop (nat offset) q else take (nat limit) (drop (nat offset) q))"

definition env0 :: env where
  "env0 = \<lparr>sha256 = (\<lambda>s. s), read_csv = sample_parser, read_csv_latin1 = (\<lambda>bytes. None),
            dedup_names = (\<lambda>names. names), now_stamp = ''20240101_000000'',
            flush_ok = True, commit_ok = True, negative_window = lenient_window\<rparr>"

definition people2_upload :: upload where
  "people2_upload = \<lparr>content = people2_csv, filename = ''test.csv'',
                      dataset_name_param = None, description_param = None\<rparr>"

definition single_upload :: upload where
  "single_upload = \<lparr>content = single_csv, filename = ''single.csv'',
                     dataset_name_param = Some ''single'', description_param = None\<rparr>"

definition repeats_upload :: upload where
  "repeats_upload = \<lparr>content = repeats_csv, filename = ''repeats.csv'',
                      dataset_name_param = Some ''repeats'', description_param = None\<rparr>"

definition stored_people2 :: session where
  "stored_people2 = snd (upload_csv env0 empty_session people2_upload)"

definition stored_both :: session where
  "stored_both = snd (upload_csv env0 (snd (upload_csv env0 empty_session single_upload))
                        repeats_upload)"

definition two_headers :: table where
  "two_headers = \<lparr>columns = [(''x'', ''object''), (''y'', ''object'')], rows = []\<rparr>"

definition with_blank :: table where
  "with_blank = \<lparr>columns = [(''name'', ''object''), (''note'', ''object'')],
     rows = [(0, [Some ''Ann'', None]), (1, [Some ''Bob'', None])]\<rparr>"

section \<open>Row insertion and duplicate flags\<close>

text \<open>
  The state of the loop after any prefix of the rows: the hashes seen are those of the
  prefix, the session has one new row per row of the prefix, and a row is flagged exactly
  when its hash is among those of the rows before it.
\<close>

lemma insert_loop:
  "\<exists>new. fold (insert_row sha did names) rs ({}, 0, db) =
      (set (map (\<lambda>r. calculate_row_hash sha (row_to_dict names (snd r))) rs),
       length (filter is_duplicate new),
       db\<lparr>pending := (pending db)\<lparr>data_rows := data_rows (pending db) @ new\<rparr>\<rparr>)
     \<and> length new = length rs
     \<and> (\<forall>i<length rs.
           row_hash (new ! i) = calculate_row_hash sha (row_to_dict names (snd (rs ! i)))
         \<and> row_number (new ! i) = fst (rs ! i)
         \<and> row_dataset_id (new ! i) = did
         \<and> data_json (new ! i) = row_to_dict names (snd (rs ! i))
         \<and> is_duplicate (new ! i) =
             (calculate_row_hash sha (row_to_dict names (snd (rs ! i)))
                \<in> set (map (\<lambda>r. calculate_row_hash sha (row_to_dict names (snd r))) (take i rs))))"
  (is "\<exists>new. ?P rs new")
proof (induction rs rule: rev_induct)
  case Nil
  show ?case by (rule exI [of _ "[]"]) simp
next
  case (snoc r rs)
  then obtain new where new: "?P rs new" by blast
  define H where "H = (\<lambda>r::nat \<times> cell list. calculate_row_hash sha (row_to_dict names (snd r)))"
  define row where "row = \<lparr>row_dataset_id = did, row_number = fst r,
     data_json = row_to_dict names (snd r), row_hash = H r,
     row_has_missing_values = list_ex (\<lambda>v. v = None) (map snd (row_to_dict names (snd r))),
     is_duplicate = (H r \<in> set (map H rs))\<rparr>"
  have len: "length new = length rs" using new by simp
  have "?P (rs @ [r]) (new @ [row])"
  proof (intro conjI allI impI)
    show "fold (insert_row sha did names) (rs @ [r]) ({}, 0, db) =
      (set (map (\<lambda>r. calculate_row_hash sha (row_to_dict names (snd r))) (rs @ [r])),
       length (filter is_duplicate (new @ [row])),
       db\<lparr>pending := (pending db)\<lparr>data_rows := data_rows (pending db) @ (new @ [row])\<rparr>\<rparr>)"
    proof -
      have step: "insert_row sha did names r (S, n, d) =
        (insert (H r) S, (if H r \<in> S then n + 1 else n),
         add_data_row \<lparr>row_dataset_id = did, row_number = fst r,
           data_json = row_to_dict names (snd r), row_hash = H r,
           row_has_missing_values = list_ex (\<lambda>v. v = None) (map snd (row_to_dict names (snd r))),
           is_duplicate = (H r \<in> S)\<rparr> d)" for S n d
        by (simp add: insert_row_def Let_def H_def)
      have eq: "fold (insert_row sha did names) rs ({}, 0, db) =
        (set (map H rs), length (filter is_duplicate new),
         db\<lparr>pending := (pending db)\<lparr>data_rows := data_rows (pending db) @ new\<rparr>\<rparr>)"
        using new by (simp add: H_def)
      show ?thesis
        unfolding fold_append comp_apply fold_simps eq step
        by (simp add: add_data_row_def row_def H_def)
    qed
  next
    show "length (new @ [row]) = length (rs @ [r])" using len by simp
  next
    fix i assume i: "i < length (rs @ [r])"
    show "row_hash ((new @ [row]) ! i) = calculate_row_hash sha (row_to_dict names (snd ((rs @ [r]) ! i)))"
      using new i len by (cases "i < length rs") (simp_all add: nth_append row_def H_def)
    show "row_number ((new @ [row]) ! i) = fst ((rs @ [r]) ! i)"
      using new i len by (cases "i < length rs") (simp_all add: nth_append row_def H_def)
    show "row_dataset_id ((new @ [row]) ! i) = did"
      using new i len by (cases "i < length rs") (simp_all add: nth_append row_def H_def)
    show "data_json ((new @ [row]) ! i) = row_to_dict names (snd ((rs @ [r]) ! i))"
      using new i len by (cases "i < length rs") (simp_all add: nth_append row_def H_def)
    show "is_duplicate ((new @ [row]) ! i) =
             (calculate_row_hash sha (row_to_dict names (snd ((rs @ [r]) ! i)))
                \<in> set (map (\<lambda>r. calculate_row_hash sha (row_to_dict names (snd r))) (take i (rs @ [r]))))"
      using new i len by (cases "i < length rs") (simp_all add: nth_append row_def H_def)
  qed
  then show ?case by blast
qed


lemma insert_loop_card:
  "\<exists>d. fold (insert_row sha did names) rs ({}, 0, db) =
     (set (map (\<lambda>r. calculate_row_hash sha (row_to_dict names (snd r))) rs),
      length rs - card (set (map (\<lambda>r. calculate_row_hash sha (row_to_dict names (snd r))) rs)),
      d)"
proof (induction rs rule: rev_induct)
  case Nil
  show ?case by simp
next
  case (snoc r rs)
  define H where "H = (\<lambda>r::nat \<times> cell list. calculate_row_hash sha (row_to_dict names (snd r)))"
  from snoc obtain d where eq:
    "fold (insert_row sha did names) rs ({}, 0, db) =
       (set (map H rs), length rs - card (set (map H rs)), d)"
    by (auto simp: H_def)
  have le: "card (set (map H rs)) \<le> length rs"
    using card_length [of "map H rs"] by simp
  have step: "\<exists>d'. insert_row sha did names r (S, n, d) =
        (insert (H r) S, (if H r \<in> S then n + 1 else n), d')" for S n d
    by (simp add: insert_row_def Let_def H_def)
  obtain d' where d': "insert_row sha did names r (set (map H rs), length rs - card (set (map H rs)), d) =
        (insert (H r) (set (map H rs)),
         (if H r \<in> set (map H rs) then length rs - card (set (map H rs)) + 1
          else length rs - card (set (map H rs))), d')"
    using step by blast
  have cnt: "(if H r \<in> set (map H rs) then length rs - card (set (map H rs)) + 1
          else length rs - card (set (map H rs)))
        = length (rs @ [r]) - card (set (map H (rs @ [r])))"
  proof (cases "H r \<in> set (map H rs)")
    case True
    then have "insert (H r) (set (map H rs)) = set (map H rs)" by auto
    then show ?thesis using True le by simp
  next
    case False
    then have "card (insert (H r) (set (map H rs))) = Suc (card (set (map H rs)))"
      by simp
    then show ?thesis using False by simp
  qed
  have "fold (insert_row sha did names) (rs @ [r]) ({}, 0, db) =
     (set (map H (rs @ [r])), length (rs @ [r]) - card (set (map H (rs @ [r]))), d')"
    unfolding fold_append comp_apply fold_simps eq d' cnt by simp
  then show ?case unfolding H_def by blast
qed

text \<open>
  C4. Among the rows inserted by one call, in order, a row is flagged \<open>is_duplicate\<close>
  exactly when an earlier row of the same call has the same \<open>row_hash\<close> (of two identical
  rows the second is flagged, the first is not), and the count returned is the number
  of rows flagged.
\<close>

theorem insert_data_rows_flags:
  assumes "insert_data_rows sha db did df = (n, db')"
  shows "length (inserted_rows db db') = length (rows df)
       \<and> (\<forall>i<length (rows df).
             row_hash (inserted_rows db db' ! i) = hash_of_row sha df (rows df ! i)
           \<and> (is_duplicate (inserted_rows db db' ! i) \<longleftrightarrow>
                (\<exists>j<i. row_hash (inserted_rows db db' ! j) = row_hash (inserted_rows db db' ! i))))
       \<and> n = length (filter is_duplicate (inserted_rows db db'))"
proof -
  let ?H = "\<lambda>r. calculate_row_hash sha (row_to_dict (col_names df) (snd r))"
  obtain new where fold_eq: "fold (insert_row sha did (col_names df)) (rows df) ({}, 0, db) =
      (set (map ?H (rows df)), length (filter is_duplicate new),
       db\<lparr>pending := (pending db)\<lparr>data_rows := data_rows (pending db) @ new\<rparr>\<rparr>)"
    and len: "length new = length (rows df)"
    and each: "\<And>i. i < length (rows df) \<Longrightarrow>
           row_hash (new ! i) = ?H (rows df ! i)
         \<and> is_duplicate (new ! i) = (?H (rows df ! i) \<in> set (map ?H (take i (rows df))))"
    using insert_loop [of sha did "col_names df" "rows df" db] by blast
  have n: "n = length (filter is_duplicate new)"
    and db': "db' = db\<lparr>pending := (pending db)\<lparr>data_rows := data_rows (pending db) @ new\<rparr>\<rparr>"
    using assms fold_eq by (simp_all add: insert_data_rows_def)
  have ins: "inserted_rows db db' = new"
    by (simp add: inserted_rows_def db')
  have dup: "is_duplicate (new ! i) \<longleftrightarrow> (\<exists>j<i. row_hash (new ! j) = row_hash (new ! i))"
    if i: "i < length (rows df)" for i
  proof -
    have "?H (rows df ! i) \<in> set (map ?H (take i (rows df))) \<longleftrightarrow>
          (\<exists>j<i. ?H (rows df ! j) = ?H (rows df ! i))"
    proof -
      have "set (take i (rows df)) = (\<lambda>j. rows df ! j) ` {j. j < i}"
        using i by (force simp: in_set_conv_nth)
      then have "set (map ?H (take i (rows df))) = (\<lambda>j. ?H (rows df ! j)) ` {j. j < i}"
        by (simp add: image_image)
      then show ?thesis by (simp only: image_iff mem_Collect_eq Bex_def) metis
    qed
    moreover have "(\<exists>j<i. ?H (rows df ! j) = ?H (rows df ! i)) \<longleftrightarrow>
          (\<exists>j<i. row_hash (new ! j) = row_hash (new ! i))"
    proof -
      have "row_hash (new ! j) = ?H (rows df ! j)" if "j \<le> i" for j
        using each [of j] that i by simp
      then show ?thesis by auto
    qed
    ultimately show ?thesis using each [OF i] by simp
  qed
  show ?thesis
    unfolding ins using len each dup n by (simp add: hash_of_row_def)
qed

text \<open>
  C8. The count returned by row insertion and the number of distinct row hashes add up
  to the number of rows: the count is the number of rows minus the number of distinct
  hashes.
\<close>

theorem insert_data_rows_count:
  "fst (insert_data_rows sha db did df) + card (set (map (hash_of_row sha df) (rows df)))
     = length (rows df)"
proof -
  let ?H = "\<lambda>r. calculate_row_hash sha (row_to_dict (col_names df) (snd r))"
  obtain d where "fold (insert_row sha did (col_names df)) (rows df) ({}, 0, db) =
     (set (map ?H (rows df)), length (rows df) - card (set (map ?H (rows df))), d)"
    using insert_loop_card [of sha did "col_names df" "rows df" db] by blast
  then have "fst (insert_data_rows sha db did df) =
      length (rows df) - card (set (map ?H (rows df)))"
    by (simp add: insert_data_rows_def)
  moreover have "card (set (map ?H (rows df))) \<le> length (rows df)"
    using card_length [of "map ?H (rows df)"] by simp
  moreover have "hash_of_row sha df = ?H"
    by (auto simp: hash_of_row_def)
  ultimately show ?thesis by simp
qed

theorem insert_data_rows_flags_witness:
  "insert_data_rows (sha256 env0) empty_session 1 people3
     = (1, snd (insert_data_rows (sha256 env0) empty_session 1 people3))
   \<and> map is_duplicate (inserted_rows empty_session
          (snd (insert_data_rows (sha256 env0) empty_session 1 people3))) = [False, False, True]
   \<and> (\<exists>j<2. row_hash (inserted_rows empty_session
          (snd (insert_data_rows (sha256 env0) empty_session 1 people3)) ! j)
        = row_hash (inserted_rows empty_session
          (snd (insert_data_rows (sha256 env0) empty_session 1 people3)) ! 2))"
proof -
  let ?db' = "snd (insert_data_rows (sha256 env0) empty_session 1 people3)"
  have run: "insert_data_rows (sha256 env0) empty_session 1 people3 = (1, ?db')"
    by code_simp
  have flags: "map is_duplicate (inserted_rows empty_session ?db') = [False, False, True]"
    by code_simp
  have third: "is_duplicate (inserted_rows empty_session ?db' ! 2)"
    by code_simp
  have "2 < length (rows people3)"
    by (simp add: people3_def)
  with insert_data_rows_flags [OF run] third
  have "\<exists>j<2. row_hash (inserted_rows empty_session ?db' ! j)
          = row_hash (inserted_rows empty_session ?db' ! 2)"
    by blast
  with run flags show ?thesis by blast
qed

section \<open>Failed uploads and the store\<close>

text \<open>No statement of the body other than an accepted commit changes the committed store.\<close>

lemma committed_add_dataset: "committed (add_dataset m db) = committed db"
  by (simp add: add_dataset_def)

lemma committed_add_column_index: "committed (add_column_index c db) = committed db"
  by (simp add: add_column_index_def)

lemma committed_set_duplicate_count: "committed (set_duplicate_count mid n db) = committed db"
  by (simp add: set_duplicate_count_def)

lemma committed_create_dataset_metadata:
  "create_dataset_metadata ok db m = (r, db') \<Longrightarrow> committed db' = committed db"
  by (auto simp: create_dataset_metadata_def Let_def committed_add_dataset split: if_splits)

lemma committed_insert_data_rows:
  "insert_data_rows sha db did df = (n, db') \<Longrightarrow> committed db' = committed db"
proof -
  assume run: "insert_data_rows sha db did df = (n, db')"
  obtain new where "fold (insert_row sha did (col_names df)) (rows df) ({}, 0, db) =
      (set (map (\<lambda>r. calculate_row_hash sha (row_to_dict (col_names df) (snd r))) (rows df)),
       length (filter is_duplicate new),
       db\<lparr>pending := (pending db)\<lparr>data_rows := data_rows (pending db) @ new\<rparr>\<rparr>)"
    using insert_loop [of sha did "col_names df" "rows df" db] by blast
  with run have "db' = db\<lparr>pending := (pending db)\<lparr>data_rows := data_rows (pending db) @ new\<rparr>\<rparr>"
    by (simp add: insert_data_rows_def)
  then show ?thesis by simp
qed

lemma committed_build_column_index_loop:
  "build_column_index_loop did df cols db = (r, db') \<Longrightarrow> committed db' = committed db"
  by (induction cols arbitrary: db)
     (auto simp: committed_add_column_index split: sum.splits)

lemma committed_build_column_index:
  "build_column_index db did df = (r, db') \<Longrightarrow> committed db' = committed db"
  by (simp add: build_column_index_def committed_build_column_index_loop)

lemma commit_refused: "commit ok db = (Inl ex, db') \<Longrightarrow> db' = db"
  by (auto simp: commit_def split: if_splits)

lemma upload_csv_try_committed:
  assumes "upload_csv_try e db file = (Inl ex, db')"
  shows "committed db' = committed db"
  using assms
  by (auto simp: upload_csv_try_def Let_def
           split: option.splits sum.splits prod.splits if_splits
           dest!: committed_create_dataset_metadata committed_insert_data_rows
                 committed_build_column_index commit_refused
           simp: committed_set_duplicate_count)

text \<open>
  Every exception raised inside the \<^verbatim>\<open>try\<close> block is rolled back: when the function ends
  with an exception, the committed store is the one from before the request and the
  session's own view is that store again.
\<close>

lemma upload_csv_handler_failure_rolls_back:
  assumes "upload_csv_handler e db file = (Inl ex, db')"
  shows "committed db' = committed db \<and> pending db' = committed db"
proof -
  obtain r d where tried: "upload_csv_try e db file = (r, d)"
    by (cases "upload_csv_try e db file")
  show ?thesis
  proof (cases r)
    case (Inl ex0)
    with tried assms have db': "db' = rollback d"
      by (simp add: upload_csv_handler_def)
    from tried Inl have "committed d = committed db"
      using upload_csv_try_committed by blast
    with db' show ?thesis by (simp add: rollback_def)
  next
    case (Inr resp)
    with tried assms show ?thesis by (simp add: upload_csv_handler_def)
  qed
qed

text \<open>
  The dict the function returns has no key \<^verbatim>\<open>missing_value_summary\<close>, which the response
  model requires. So the endpoint fails in one of two ways: with an exception of the
  function, rolled back, or after the function has committed and returned.
\<close>

lemma upload_csv_response_check:
  "response_model DatasetUploadResponse_fields upload_csv_keys (Inr r) = Inl ResponseValidationError"
  by (simp add: response_model_def DatasetUploadResponse_fields_def upload_csv_keys_def)

lemma upload_csv_cases:
  assumes "upload_csv e db file = (r, db')"
  shows "(\<exists>ex. r = Inl (HTTPException 500 (Str ex))
              \<and> committed db' = committed db \<and> pending db' = committed db)
       \<or> (r = Inl ResponseValidationError
              \<and> (\<exists>resp. upload_csv_handler e db file = (Inr resp, db'))
              \<and> committed db' = pending db')"
proof -
  obtain h d where h: "upload_csv_handler e db file = (h, d)"
    by (cases "upload_csv_handler e db file")
  with assms have r: "r = response_model DatasetUploadResponse_fields upload_csv_keys h"
    and d: "db' = d"
    by (simp_all add: upload_csv_def)
  show ?thesis
  proof (cases h)
    case (Inl ex0)
    with h obtain ex where "ex0 = HTTPException 500 (Str ex)"
      by (auto simp: upload_csv_handler_def split: prod.splits sum.splits)
    moreover from upload_csv_handler_failure_rolls_back h Inl
    have "committed d = committed db \<and> pending d = committed db"
      by blast
    ultimately show ?thesis using r d Inl by (simp add: response_model_def)
  next
    case (Inr resp)
    with h have "upload_csv_try e db file = (Inr resp, d)"
      by (auto simp: upload_csv_handler_def split: prod.splits sum.splits)
    then have "committed d = pending d"
      unfolding upload_csv_try_def Let_def
      by (auto simp: commit_def split: option.splits sum.splits prod.splits if_splits)
    with r d h Inr show ?thesis by (simp add: upload_csv_response_check)
  qed
qed

text \<open>
  C7. The claim fails on the code for an upload that goes through. The two-person file
  of the repository's own test is uploaded to an empty store: the function inserts the
  metadata record, the two rows and the three index entries, commits and returns; the
  check of the returned dict against the response model then fails, and the reply is an
  internal error with status 500. The store is not the one from before the request: it
  holds the record, the rows and the index entries of the failed upload.
\<close>

theorem upload_csv_fails_after_commit:
  "fst (upload_csv env0 empty_session people2_upload) = Inl ResponseValidationError
   \<and> status_code (fst (upload_csv env0 empty_session people2_upload)) = 500
   \<and> length (datasets (committed (snd (upload_csv env0 empty_session people2_upload)))) = 1
   \<and> length (data_rows (committed (snd (upload_csv env0 empty_session people2_upload)))) = 2
   \<and> length (column_indexes (committed (snd (upload_csv env0 empty_session people2_upload)))) = 3
   \<and> committed empty_session = empty_store
   \<and> committed (snd (upload_csv env0 empty_session people2_upload)) \<noteq> committed empty_session"
  by code_simp

section \<open>Status of a rejected upload\<close>

text \<open>
  C1. The body raises status 409 for a file hash that is stored and status 400 for a
  dataset name that is stored, but both are raised inside the \<^verbatim>\<open>try\<close> block whose
  \<^verbatim>\<open>except Exception\<close> clause catches them and raises status 500 instead. With one dataset
  stored, uploading the same bytes again, and uploading other bytes under the stored
  name, both end with status 500, the intended exception being only the detail text.
\<close>

theorem upload_csv_conflict_status_500:
  "get_dataset_by_hash stored_people2 (calculate_file_hash (sha256 env0) (content people2_upload)) \<noteq> None
   \<and> fst (upload_csv env0 stored_people2 people2_upload)
       = Inl (HTTPException 500 (Str (HTTPException 409
               (Text ''Duplicate file. Already stored as: test_20240101_000000''))))
   \<and> status_code (fst (upload_csv env0 stored_people2 people2_upload)) = 500
   \<and> get_dataset_by_name stored_people2 ''test_20240101_000000'' \<noteq> None
   \<and> fst (upload_csv env0 stored_people2
            (people2_upload\<lparr>content := ''a\<newline>'', dataset_name_param := Some ''test_20240101_000000''\<rparr>))
       = Inl (HTTPException 500 (Str (HTTPException 400 (Text ''Dataset name already exists''))))
   \<and> status_code (fst (upload_csv env0 stored_people2
            (people2_upload\<lparr>content := ''a\<newline>'', dataset_name_param := Some ''test_20240101_000000''\<rparr>))) = 500"
  by code_simp

text \<open>The endpoint has no other status than 500.\<close>

lemma upload_csv_status: "status_code (fst (upload_csv e db file)) = 500"
proof -
  obtain r db' where run: "upload_csv e db file = (r, db')"
    by (cases "upload_csv e db file")
  from upload_csv_cases [OF run] have "status_code r = 500"
    by auto
  with run show ?thesis by simp
qed

section \<open>The data endpoint\<close>

text \<open>
  The query keeps, in store order, the rows of the dataset, and with \<open>exclude_duplicates\<close>
  only those not flagged as duplicates. The returned dict has every field of the
  response model.
\<close>

lemma data_query_filter:
  "data_query db did exclude_duplicates =
     filter (\<lambda>r. row_dataset_id r = did \<and> (exclude_duplicates \<longrightarrow> \<not> is_duplicate r))
       (data_rows (pending db))"
  by (cases exclude_duplicates) (simp_all add: data_query_def Let_def conj_commute)

lemma get_data_response_check:
  "response_model DataResponse_fields get_data_keys r = r"
  by (cases r) (simp_all add: response_model_def DataResponse_fields_def get_data_keys_def)

text \<open>
  C10. For a stored dataset and any \<open>limit\<close>, \<open>offset\<close> and \<open>exclude_duplicates\<close>, a body
  returned by the data endpoint has \<open>total_rows\<close> equal to the \<open>row_count\<close> stored with
  the dataset, whatever the filter and the window. The filter and the window show in
  \<open>returned_rows\<close> and the data list only: for an \<open>offset\<close> and a \<open>limit\<close> that are not
  negative the endpoint returns, as data, the rows of the dataset in store order, without
  those flagged as duplicates when \<open>exclude_duplicates\<close> is set, the first \<open>offset\<close> of them
  skipped and at most \<open>limit\<close> taken, and as \<open>returned_rows\<close> their number. For a negative
  value the same holds with the rows the database selects from that filtered list.
\<close>

theorem get_data_total_rows:
  assumes "get_dataset_by_name db name = Some dataset"
  shows "(\<forall>r. get_data e db name limit offset exclude_duplicates = Inr r \<longrightarrow>
             total_rows r = row_count dataset \<and> returned_rows r = length (data r))
       \<and> (0 \<le> offset \<and> 0 \<le> limit \<longrightarrow>
             get_data e db name limit offset exclude_duplicates =
               Inr \<lparr>data_dataset_name = name, total_rows = row_count dataset,
                    returned_rows =
                      length (take (nat limit) (drop (nat offset)
                        (filter (\<lambda>r. row_dataset_id r = meta_id dataset
                                       \<and> (exclude_duplicates \<longrightarrow> \<not> is_duplicate r))
                           (data_rows (pending db))))),
                    data =
                      map data_json (take (nat limit) (drop (nat offset)
                        (filter (\<lambda>r. row_dataset_id r = meta_id dataset
                                       \<and> (exclude_duplicates \<longrightarrow> \<not> is_duplicate r))
                           (data_rows (pending db)))))\<rparr>)
       \<and> (\<forall>rs. \<not> (0 \<le> offset \<and> 0 \<le> limit) \<longrightarrow>
             negative_window e offset limit
               (filter (\<lambda>r. row_dataset_id r = meta_id dataset
                              \<and> (exclude_duplicates \<longrightarrow> \<not> is_duplicate r))
                  (data_rows (pending db))) = Some rs \<longrightarrow>
             get_data e db name limit offset exclude_duplicates =
               Inr \<lparr>data_dataset_name = name, total_rows = row_count dataset,
                    returned_rows = length rs, data = map data_json rs\<rparr>)"
proof -
  have ep: "get_data e db name limit offset exclude_duplicates
              = get_data_handler e db name limit offset exclude_duplicates"
    by (simp add: get_data_def get_data_response_check)
  have a: "\<forall>r. get_data e db name limit offset exclude_duplicates = Inr r \<longrightarrow>
             total_rows r = row_count dataset \<and> returned_rows r = length (data r)"
    unfolding ep using assms by (auto simp: get_data_handler_def split: option.splits)
  have b: "0 \<le> offset \<and> 0 \<le> limit \<longrightarrow>
             get_data e db name limit offset exclude_duplicates =
               Inr \<lparr>data_dataset_name = name, total_rows = row_count dataset,
                    returned_rows =
                      length (take (nat limit) (drop (nat offset)
                        (filter (\<lambda>r. row_dataset_id r = meta_id dataset
                                       \<and> (exclude_duplicates \<longrightarrow> \<not> is_duplicate r))
                           (data_rows (pending db))))),
                    data =
                      map data_json (take (nat limit) (drop (nat offset)
                        (filter (\<lambda>r. row_dataset_id r = meta_id dataset
                                       \<and> (exclude_duplicates \<longrightarrow> \<not> is_duplicate r))
                           (data_rows (pending db)))))\<rparr>"
    unfolding ep using assms
    by (simp add: get_data_handler_def offset_limit_def data_query_filter)
  have c: "\<forall>rs. \<not> (0 \<le> offset \<and> 0 \<le> limit) \<longrightarrow>
             negative_window e offset limit
               (filter (\<lambda>r. row_dataset_id r = meta_id dataset
                              \<and> (exclude_duplicates \<longrightarrow> \<not> is_duplicate r))
                  (data_rows (pending db))) = Some rs \<longrightarrow>
             get_data e db name limit offset exclude_duplicates =
               Inr \<lparr>data_dataset_name = name, total_rows = row_count dataset,
                    returned_rows = length rs, data = map data_json rs\<rparr>"
    unfolding ep using assms
    by (simp add: get_data_handler_def offset_limit_def data_query_filter)
  from a b c show ?thesis by blast
qed

theorem get_data_total_rows_witness:
  "get_dataset_by_name stored_both ''repeats'' \<noteq> None
   \<and> row_count (the (get_dataset_by_name stored_both ''repeats'')) = 3
   \<and> length (data_rows (pending stored_both)) = 4
   \<and> get_data env0 stored_both ''repeats'' 5 1 True =
       Inr \<lparr>data_dataset_name = ''repeats'', total_rows = 3, returned_rows = 1,
            data = [[(''k'', Some ''w'')]]\<rparr>
   \<and> get_data env0 stored_both ''repeats'' 5 1 False =
       Inr \<lparr>data_dataset_name = ''repeats'', total_rows = 3, returned_rows = 2,
            data = [[(''k'', Some ''w'')],
                    [(''k'', Some ''v'')]]\<rparr>"
proof -
  let ?d = "the (get_dataset_by_name stored_both ''repeats'')"
  let ?rows = "data_rows (pending stored_both)"
  have ne: "get_dataset_by_name stored_both ''repeats'' \<noteq> None"
    by code_simp
  then have found: "get_dataset_by_name stored_both ''repeats'' = Some ?d"
    by simp
  have rc: "row_count ?d = 3" and n: "length ?rows = 4"
    by code_simp+
  have w1: "map data_json (take (nat 5) (drop (nat 1)
              (filter (\<lambda>r. row_dataset_id r = meta_id ?d \<and> (True \<longrightarrow> \<not> is_duplicate r)) ?rows)))
            = [[(''k'', Some ''w'')]]"
    by code_simp
  have w2: "map data_json (take (nat 5) (drop (nat 1)
              (filter (\<lambda>r. row_dataset_id r = meta_id ?d \<and> (False \<longrightarrow> \<not> is_duplicate r)) ?rows)))
            = [[(''k'', Some ''w'')],
               [(''k'', Some ''v'')]]"
    by code_simp
  have l1: "length (take (nat 5) (drop (nat 1)
              (filter (\<lambda>r. row_dataset_id r = meta_id ?d \<and> (True \<longrightarrow> \<not> is_duplicate r)) ?rows))) = 1"
    using arg_cong [OF w1, of length] by simp
  have l2: "length (take (nat 5) (drop (nat 1)
              (filter (\<lambda>r. row_dataset_id r = meta_id ?d \<and> (False \<longrightarrow> \<not> is_duplicate r)) ?rows))) = 2"
    using arg_cong [OF w2, of length] by simp
  have "get_data env0 stored_both ''repeats'' 5 1 True =
       Inr \<lparr>data_dataset_name = ''repeats'', total_rows = 3, returned_rows = 1,
            data = [[(''k'', Some ''w'')]]\<rparr>"
    using get_data_total_rows [OF found, of env0 5 1 True] rc
    unfolding w1 l1 by simp
  moreover have "get_data env0 stored_both ''repeats'' 5 1 False =
       Inr \<lparr>data_dataset_name = ''repeats'', total_rows = 3, returned_rows = 2,
            data = [[(''k'', Some ''w'')],
                    [(''k'', Some ''v'')]]\<rparr>"
    using get_data_total_rows [OF found, of env0 5 1 False] rc
    unfolding w2 l2 by simp
  ultimately show ?thesis using ne rc n by blast
qed

section \<open>The validator\<close>

lemma all_null_cols_no_rows:
  "rows t = [] \<Longrightarrow> all_null_cols t = col_names t"
proof -
  assume "rows t = []"
  then have "filter (col_all_null t) [0..<length (columns t)] = [0..<length (columns t)]"
    by (simp add: col_all_null_def col_cells_def)
  then have "all_null_cols t = map (\<lambda>j. fst (columns t ! j)) [0..<length (columns t)]"
    by (simp add: all_null_cols_def)
  also have "\<dots> = map fst (map (\<lambda>j. columns t ! j) [0..<length (columns t)])"
    by simp
  also have "\<dots> = map fst (columns t)"
    by (simp only: map_nth)
  finally show ?thesis by (simp add: col_names_def)
qed

lemma filter_not_all_null:
  "filter row_all_null rs = [] \<Longrightarrow> filter (\<lambda>r. \<not> row_all_null r) rs = rs"
  by (induction rs) (auto split: if_splits)

lemma map2_relabel:
  "length new = length cols \<Longrightarrow>
     map snd (map2 (\<lambda>n c. (n, snd c)) new cols) = map snd cols
     \<and> map fst (map2 (\<lambda>n c. (n, snd c)) new cols) = new"
  by (induction new cols rule: list_induct2) auto

lemma set_columns_Inr:
  "set_columns t new = Inr t' \<Longrightarrow>
     rows t' = rows t \<and> length (columns t') = length (columns t)
     \<and> map snd (columns t') = map snd (columns t) \<and> col_names t' = new"
proof -
  assume a: "set_columns t new = Inr t'"
  then have len: "length new = length (columns t)"
    and t': "t' = t\<lparr>columns := map2 (\<lambda>n c. (n, snd c)) new (columns t)\<rparr>"
    by (auto simp: set_columns_def split: if_splits)
  from map2_relabel [OF len] show ?thesis
    using len t' by (simp add: col_names_def)
qed

text \<open>The result of the validator, check by check.\<close>

lemma validate_and_clean_data_Inr:
  assumes "validate_and_clean_data dedup raw = Inr (df, errors)"
  shows "rows df = filter (\<lambda>r. \<not> row_all_null r) (rows raw)"
    and "length (columns df) = length (columns raw)"
    and "map snd (columns df) = map snd (columns raw)"
    and "errors =
          (if filter row_all_null (rows raw) \<noteq> []
           then [EmptyRows (length (filter row_all_null (rows raw)))
                   (map fst (filter row_all_null (rows raw)))] else [])
          @ (if duplicated_labels [] (col_names raw) \<noteq> []
             then [DuplicateColumns (duplicated_labels [] (col_names raw))] else [])
          @ (if all_null_cols df \<noteq> []
             then [AllNullColumns (all_null_cols df) ''kept_for_schema_integrity''] else [])"
    and "col_names df = (if duplicated_labels [] (col_names raw) \<noteq> []
                        then dedup (col_names raw) else col_names raw)"
proof -
  define df1 where "df1 = (if filter row_all_null (rows raw) \<noteq> []
      then raw\<lparr>rows := filter (\<lambda>r. \<not> row_all_null r) (rows raw)\<rparr> else raw)"
  define errors1 where "errors1 = (if filter row_all_null (rows raw) \<noteq> []
      then [EmptyRows (length (filter row_all_null (rows raw)))
                   (map fst (filter row_all_null (rows raw)))] else [])"
  have rows1: "rows df1 = filter (\<lambda>r. \<not> row_all_null r) (rows raw)"
    by (simp add: df1_def filter_not_all_null)
  have cols1: "columns df1 = columns raw"
    by (simp add: df1_def)
  have names1: "col_names df1 = col_names raw"
    by (simp add: col_names_def cols1)
  define step2 where "step2 = (if duplicated_labels [] (col_names df1) \<noteq> []
               then (case set_columns df1 (dedup (col_names df1)) of
                       Inl e \<Rightarrow> Inl e
                     | Inr df' \<Rightarrow> Inr (df', errors1 @ [DuplicateColumns (duplicated_labels [] (col_names df1))]))
               else Inr (df1, errors1))"
  have unfolded: "validate_and_clean_data dedup raw =
     (case step2 of Inl e \<Rightarrow> Inl e
      | Inr (df, errors) \<Rightarrow>
             Inr (df, if all_null_cols df \<noteq> []
                      then errors @ [AllNullColumns (all_null_cols df) ''kept_for_schema_integrity'']
                      else errors))"
  proof (cases "filter row_all_null (rows raw) = []")
    case True
    then show ?thesis
      unfolding validate_and_clean_data_def Let_def step2_def df1_def errors1_def by simp
  next
    case False
    then show ?thesis
      unfolding validate_and_clean_data_def Let_def step2_def df1_def errors1_def by simp
  qed
  from assms unfolded obtain errors2 where
    s2: "step2 = Inr (df, errors2)"
    and errs: "errors = (if all_null_cols df \<noteq> []
                      then errors2 @ [AllNullColumns (all_null_cols df) ''kept_for_schema_integrity'']
                      else errors2)"
    by (auto split: sum.splits)
  have main: "rows df = rows df1 \<and> length (columns df) = length (columns df1)
     \<and> map snd (columns df) = map snd (columns df1)
     \<and> errors2 = errors1 @ (if duplicated_labels [] (col_names raw) \<noteq> []
             then [DuplicateColumns (duplicated_labels [] (col_names raw))] else [])
     \<and> col_names df = (if duplicated_labels [] (col_names raw) \<noteq> []
                        then dedup (col_names raw) else col_names raw)"
  proof (cases "duplicated_labels [] (col_names raw) \<noteq> []")
    case True
    with s2 obtain df' where sc: "set_columns df1 (dedup (col_names raw)) = Inr df'"
      and "df = df'" and "errors2 = errors1 @ [DuplicateColumns (duplicated_labels [] (col_names raw))]"
      by (auto simp: step2_def names1 split: sum.splits)
    with set_columns_Inr [OF sc] True show ?thesis by simp
  next
    case False
    with s2 have "df = df1" and "errors2 = errors1"
      by (simp_all add: step2_def names1)
    with False names1 show ?thesis by simp
  qed
  show "rows df = filter (\<lambda>r. \<not> row_all_null r) (rows raw)"
    using main rows1 by simp
  show "length (columns df) = length (columns raw)"
    using main cols1 by simp
  show "map snd (columns df) = map snd (columns raw)"
    using main cols1 by simp
  show "col_names df = (if duplicated_labels [] (col_names raw) \<noteq> []
                        then dedup (col_names raw) else col_names raw)"
    using main by simp
  show "errors =
          (if filter row_all_null (rows raw) \<noteq> []
           then [EmptyRows (length (filter row_all_null (rows raw)))
                   (map fst (filter row_all_null (rows raw)))] else [])
          @ (if duplicated_labels [] (col_names raw) \<noteq> []
             then [DuplicateColumns (duplicated_labels [] (col_names raw))] else [])
          @ (if all_null_cols df \<noteq> []
             then [AllNullColumns (all_null_cols df) ''kept_for_schema_integrity''] else [])"
    using main errs by (simp add: errors1_def)
qed

text \<open>
  The validator returns unless labels repeat and the renaming changes their number.
\<close>

lemma validate_and_clean_data_returns:
  assumes "duplicated_labels [] (col_names raw) = []
           \<or> length (dedup (col_names raw)) = length (columns raw)"
  shows "\<exists>df errors. validate_and_clean_data dedup raw = Inr (df, errors)"
proof (cases "filter row_all_null (rows raw) = []")
  case True
  with assms show ?thesis
    unfolding validate_and_clean_data_def Let_def set_columns_def by auto
next
  case False
  with assms show ?thesis
    unfolding validate_and_clean_data_def Let_def set_columns_def
    by (auto simp: col_names_def)
qed

text \<open>
  C3 as stated fails: a frame with two columns and no rows comes back with an
  \<open>all_null_columns\<close> entry that lists both columns.
\<close>

theorem validate_zero_rows_counterexample:
  "rows two_headers = []
   \<and> validate_and_clean_data (dedup_names env0) two_headers
       = Inr (two_headers, [AllNullColumns [''x'', ''y''] ''kept_for_schema_integrity''])"
  by code_simp

text \<open>
  C3, amended. For a frame with zero rows the all-null-column check is not skipped: the
  validator returns the frame with zero rows and all its columns, and when the frame has
  a column the last entry of the error log is an \<open>all_null_columns\<close> entry that lists
  every column (under the label it has after the renaming of repeated labels). The log
  is empty only for a frame without columns.
\<close>

theorem validate_zero_rows_flags_all_columns:
  assumes "rows raw = []"
    and "validate_and_clean_data dedup raw = Inr (df, errors)"
  shows "rows df = [] \<and> length (columns df) = length (columns raw)
       \<and> (columns raw \<noteq> [] \<longrightarrow>
            errors \<noteq> [] \<and> last errors = AllNullColumns (col_names df) ''kept_for_schema_integrity'')
       \<and> (columns raw = [] \<longrightarrow> errors = [])"
proof -
  note v = validate_and_clean_data_Inr [OF assms(2)]
  have rows: "rows df = []"
    using v(1) assms(1) by simp
  have all: "all_null_cols df = col_names df"
    using rows by (rule all_null_cols_no_rows)
  have len: "length (col_names df) = length (columns raw)"
    using v(2) by (simp add: col_names_def)
  have some: "errors \<noteq> [] \<and> last errors = AllNullColumns (col_names df) ''kept_for_schema_integrity''"
    if "columns raw \<noteq> []"
  proof -
    from that len have "col_names df \<noteq> []" by auto
    with all v(4) show ?thesis by simp
  qed
  have none: "errors = []" if "columns raw = []"
  proof -
    from that have "col_names raw = []" by (simp add: col_names_def)
    moreover from that len have "col_names df = []" by simp
    ultimately show ?thesis using v(4) all assms(1) by simp
  qed
  from rows v(2) some none show ?thesis by blast
qed

theorem validate_zero_rows_flags_all_columns_witness:
  "rows header_only = []
   \<and> validate_and_clean_data (dedup_names env0) header_only
       = Inr (header_only, [AllNullColumns [''a''] ''kept_for_schema_integrity''])
   \<and> columns header_only \<noteq> []
   \<and> last [AllNullColumns [''a''] ''kept_for_schema_integrity'']
       = AllNullColumns (col_names header_only) ''kept_for_schema_integrity''"
proof -
  have r: "rows header_only = []"
    by (simp add: header_only_def)
  have v: "validate_and_clean_data (dedup_names env0) header_only
       = Inr (header_only, [AllNullColumns [''a''] ''kept_for_schema_integrity''])"
    by code_simp
  have c: "columns header_only \<noteq> []"
    by (simp add: header_only_def)
  from validate_zero_rows_flags_all_columns [OF r v] c
  have "last [AllNullColumns [''a''] ''kept_for_schema_integrity'']
       = AllNullColumns (col_names header_only) ''kept_for_schema_integrity''"
    by blast
  with r v c show ?thesis by blast
qed

section \<open>The column index\<close>

lemma filter_index_eq:
  "filter (\<lambda>i. i = j) [0..<n] = (if j < n then [j] else [])"
  by (induction n) auto

lemma filter_label_distinct:
  assumes "distinct xs" and "j < length xs"
  shows "filter (\<lambda>i. xs ! i = xs ! j) [0..<length xs] = [j]"
proof -
  have "filter (\<lambda>i. xs ! i = xs ! j) [0..<length xs] = filter (\<lambda>i. i = j) [0..<length xs]"
    using assms by (intro filter_cong) (auto simp: nth_eq_iff_index_eq)
  with assms(2) show ?thesis by (simp add: filter_index_eq)
qed

text \<open>
  \<^verbatim>\<open>df[col]\<close> is the series of column \<open>j\<close> when the labels are distinct; and whenever it
  is a series, it is the series of the one column that has the label.
\<close>

lemma getitem_distinct:
  assumes "distinct (col_names t)" and "j < length (columns t)"
  shows "getitem t (fst (columns t ! j)) =
           Some \<lparr>dtype = snd (columns t ! j), items = map (\<lambda>r. (fst r, snd r ! j)) (rows t)\<rparr>"
proof -
  have "filter (\<lambda>i. col_names t ! i = col_names t ! j) [0..<length (col_names t)] = [j]"
    using assms by (intro filter_label_distinct) (simp_all add: col_names_def)
  moreover have "filter (\<lambda>i. fst (columns t ! i) = fst (columns t ! j)) [0..<length (columns t)]
      = filter (\<lambda>i. col_names t ! i = col_names t ! j) [0..<length (col_names t)]"
    using assms(2) by (intro filter_cong) (auto simp: col_names_def)
  ultimately show ?thesis by (simp add: getitem_def)
qed

lemma getitem_Some:
  assumes "getitem t col = Some s"
  shows "\<exists>j<length (columns t). fst (columns t ! j) = col
           \<and> s = \<lparr>dtype = snd (columns t ! j), items = map (\<lambda>r. (fst r, snd r ! j)) (rows t)\<rparr>
           \<and> (\<forall>i<length (columns t). fst (columns t ! i) = col \<longrightarrow> i = j)"
proof -
  from assms obtain j where f: "filter (\<lambda>j. fst (columns t ! j) = col) [0..<length (columns t)] = [j]"
    and s: "s = \<lparr>dtype = snd (columns t ! j), items = map (\<lambda>r. (fst r, snd r ! j)) (rows t)\<rparr>"
    by (auto simp: getitem_def split: list.splits)
  have mem: "i \<in> set (filter (\<lambda>j. fst (columns t ! j) = col) [0..<length (columns t)])
           \<longleftrightarrow> i < length (columns t) \<and> fst (columns t ! i) = col" for i
    by auto
  from mem [of j] f have "j < length (columns t)" and "fst (columns t ! j) = col"
    by simp_all
  moreover have "i = j" if "i < length (columns t)" and "fst (columns t ! i) = col" for i
    using mem [of i] that f by simp
  ultimately show ?thesis using s by blast
qed

text \<open>The index loop adds one entry per column, in column order, or raises.\<close>

lemma column_index_entry_Inr:
  assumes "column_index_entry did df col = Inr e"
  shows "\<exists>s. getitem df col = Some s \<and> column_name e = col \<and> data_type e = dtype s
            \<and> index_dataset_id e = did"
proof (cases "getitem df col")
  case None
  with assms show ?thesis by (simp add: column_index_entry_def)
next
  case (Some s)
  with assms have "e = \<lparr>index_dataset_id = did, column_name = col, data_type = dtype s,
      distinct_count = distinct_count e, min_value = min_value e, max_value = max_value e,
      sample_values = sample_values e\<rparr>"
    by (auto simp: column_index_entry_def Let_def)
  then have "column_name e = col \<and> data_type e = dtype s \<and> index_dataset_id e = did"
    by (metis column_index.select_convs(1,2,3))
  with Some show ?thesis by simp
qed

lemma build_column_index_loop_Inr:
  "build_column_index_loop did df cols db = (Inr (), db') \<Longrightarrow>
     \<exists>es. list_all2 (\<lambda>c e. column_index_entry did df c = Inr e) cols es
        \<and> db' = db\<lparr>pending := (pending db)\<lparr>column_indexes := column_indexes (pending db) @ es\<rparr>\<rparr>"
proof (induction cols arbitrary: db)
  case Nil
  then show ?case by simp
next
  case (Cons c cols)
  from Cons.prems obtain e where e: "column_index_entry did df c = Inr e"
    and rest: "build_column_index_loop did df cols (add_column_index e db) = (Inr (), db')"
    by (auto split: sum.splits)
  from Cons.IH [OF rest] obtain es where
    es: "list_all2 (\<lambda>c e. column_index_entry did df c = Inr e) cols es"
    and db': "db' = (add_column_index e db)\<lparr>pending := (pending (add_column_index e db))
        \<lparr>column_indexes := column_indexes (pending (add_column_index e db)) @ es\<rparr>\<rparr>"
    by blast
  have "list_all2 (\<lambda>c e. column_index_entry did df c = Inr e) (c # cols) (e # es)"
    using e es by simp
  moreover have "db' = db\<lparr>pending := (pending db)
        \<lparr>column_indexes := column_indexes (pending db) @ (e # es)\<rparr>\<rparr>"
    using db' by (simp add: add_column_index_def)
  ultimately show ?case by blast
qed

lemma infer_schema_loop_Inr:
  "\<forall>c\<in>set cols. getitem df c \<noteq> None \<Longrightarrow>
     \<exists>s'. infer_schema_loop df cols schema = Inr s'
        \<and> (\<forall>c. map_of s' c = (if c \<in> set cols
                                then Some (logical_type (dtype (the (getitem df c))))
                                else map_of schema c))"
proof (induction cols arbitrary: schema)
  case Nil
  show ?case by simp
next
  case (Cons c cols)
  from Cons.prems obtain s where s: "getitem df c = Some s"
    by auto
  from Cons.prems have "\<forall>c\<in>set cols. getitem df c \<noteq> None"
    by simp
  from Cons.IH [OF this, of "AList.update c (logical_type (dtype s)) schema"]
  obtain s' where s': "infer_schema_loop df cols (AList.update c (logical_type (dtype s)) schema) = Inr s'"
    and m: "\<And>k. map_of s' k = (if k \<in> set cols
                                then Some (logical_type (dtype (the (getitem df k))))
                                else map_of (AList.update c (logical_type (dtype s)) schema) k)"
    by blast
  have "infer_schema_loop df (c # cols) schema = Inr s'"
    using s s' by simp
  moreover have "map_of s' k = (if k \<in> set (c # cols)
                                then Some (logical_type (dtype (the (getitem df k))))
                                else map_of schema k)" for k
    using m [of k] s by (simp add: update_conv')
  ultimately show ?case by blast
qed

text \<open>
  C2, amended. When the column index is built, the entry of each column has as
  \<open>data_type\<close> the name of the column's dtype as the frame carries it (such as
  \<^verbatim>\<open>object\<close>), not the logical type name. The schema inferencer returns for that column
  the image of this dtype name under its mapping to \<open>integer\<close>, \<open>float\<close>, \<open>boolean\<close>,
  \<open>datetime\<close> or \<open>string\<close>.
\<close>

theorem build_column_index_data_type:
  assumes "build_column_index db did df = (Inr (), db')"
  shows "length (added_index db db') = length (columns df)
       \<and> (\<forall>j<length (columns df).
             column_name (added_index db db' ! j) = fst (columns df ! j)
           \<and> data_type (added_index db db' ! j) = snd (columns df ! j))
       \<and> (\<exists>schema. infer_schema df = Inr schema
            \<and> (\<forall>j<length (columns df).
                  map_of schema (fst (columns df ! j))
                    = Some (logical_type (data_type (added_index db db' ! j)))))"
proof -
  from assms obtain es where
    es: "list_all2 (\<lambda>c e. column_index_entry did df c = Inr e) (col_names df) es"
    and db': "db' = db\<lparr>pending := (pending db)\<lparr>column_indexes := column_indexes (pending db) @ es\<rparr>\<rparr>"
    using build_column_index_loop_Inr unfolding build_column_index_def by blast
  have added: "added_index db db' = es"
    by (simp add: added_index_def db')
  have len: "length es = length (columns df)"
    using es by (auto simp: list_all2_conv_all_nth col_names_def)
  have entry: "column_index_entry did df (fst (columns df ! j)) = Inr (es ! j)"
    if "j < length (columns df)" for j
    using es that by (auto simp: list_all2_conv_all_nth col_names_def)
  have series: "getitem df (fst (columns df ! j)) =
        Some \<lparr>dtype = snd (columns df ! j), items = map (\<lambda>r. (fst r, snd r ! j)) (rows df)\<rparr>"
    if j: "j < length (columns df)" for j
  proof -
    from column_index_entry_Inr [OF entry [OF j]]
    obtain s where s: "getitem df (fst (columns df ! j)) = Some s"
      by blast
    from getitem_Some [OF s] j show ?thesis using s by auto
  qed
  have fields: "column_name (es ! j) = fst (columns df ! j) \<and> data_type (es ! j) = snd (columns df ! j)"
    if j: "j < length (columns df)" for j
    using column_index_entry_Inr [OF entry [OF j]] series [OF j] by auto
  have "\<forall>c\<in>set (col_names df). getitem df c \<noteq> None"
  proof
    fix c assume "c \<in> set (col_names df)"
    then obtain j where "j < length (columns df)" and "c = fst (columns df ! j)"
      by (auto simp: col_names_def in_set_conv_nth)
    with series [of j] show "getitem df c \<noteq> None" by simp
  qed
  from infer_schema_loop_Inr [OF this, of "[]"] obtain schema where
    schema: "infer_schema df = Inr schema"
    and m: "\<And>c. map_of schema c = (if c \<in> set (col_names df)
                                then Some (logical_type (dtype (the (getitem df c))))
                                else map_of [] c)"
    unfolding infer_schema_def by blast
  have "map_of schema (fst (columns df ! j)) = Some (logical_type (data_type (es ! j)))"
    if j: "j < length (columns df)" for j
  proof -
    have "fst (columns df ! j) \<in> set (col_names df)"
      using j by (auto simp: col_names_def)
    with m [of "fst (columns df ! j)"] series [OF j] fields [OF j] show ?thesis
      by simp
  qed
  with schema len fields added show ?thesis by blast
qed

text \<open>
  C2 as stated fails: for the frame of the two-person file the entry of column \<open>age\<close> has
  \<open>data_type\<close> \<^verbatim>\<open>object\<close>, which is none of the five logical names, while the inferencer
  gives \<open>string\<close>.
\<close>

theorem build_column_index_data_type_counterexample:
  "fst (build_column_index empty_session 1 people2) = Inr ()
   \<and> column_name (added_index empty_session (snd (build_column_index empty_session 1 people2)) ! 1) = ''age''
   \<and> data_type (added_index empty_session (snd (build_column_index empty_session 1 people2)) ! 1) = ''object''
   \<and> infer_schema people2 = Inr [(''name'', ''string''), (''age'', ''string''), (''city'', ''string'')]
   \<and> ''object'' \<notin> {''integer'', ''float'', ''boolean'', ''datetime'', ''string''}"
  by code_simp

theorem build_column_index_data_type_witness:
  "build_column_index empty_session 1 people3
      = (Inr (), snd (build_column_index empty_session 1 people3))
   \<and> map data_type (added_index empty_session (snd (build_column_index empty_session 1 people3)))
      = [''object'', ''object'']
   \<and> map snd (columns people3) = [''object'', ''object'']
   \<and> logical_type ''object'' = ''string''
   \<and> (\<exists>schema. infer_schema people3 = Inr schema \<and> map_of schema ''age'' = Some ''string'')"
proof -
  let ?db' = "snd (build_column_index empty_session 1 people3)"
  have run: "build_column_index empty_session 1 people3 = (Inr (), ?db')"
    by code_simp
  have types: "map data_type (added_index empty_session ?db') = [''object'', ''object'']"
    by code_simp
  have cols: "map snd (columns people3) = [''object'', ''object'']"
    and c1: "fst (columns people3 ! 1) = ''age''" and l: "1 < length (columns people3)"
    by (simp_all add: people3_def)
  have lt: "logical_type ''object'' = ''string''"
    by code_simp
  have d1: "data_type (added_index empty_session ?db' ! 1) = ''object''"
    by code_simp
  from build_column_index_data_type [OF run] obtain schema where
    "infer_schema people3 = Inr schema"
    and "\<forall>j<length (columns people3). map_of schema (fst (columns people3 ! j))
           = Some (logical_type (data_type (added_index empty_session ?db' ! j)))"
    by blast
  with l c1 d1 lt have "infer_schema people3 = Inr schema \<and> map_of schema ''age'' = Some ''string''"
    by fastforce
  with run types cols lt show ?thesis by blast
qed

section \<open>Columns without values\<close>

lemma col_data_all_null:
  "list_all (\<lambda>c. c = None) (map snd its) \<Longrightarrow>
     concat (map (\<lambda>(i, v). case v of None \<Rightarrow> [] | Some x \<Rightarrow> [x]) its) = []"
  by (induction its) auto

lemma column_index_entry_all_null:
  assumes "getitem df col = Some \<lparr>dtype = d, items = map (\<lambda>r. (fst r, snd r ! j)) (rows df)\<rparr>"
    and "col_all_null df j"
  shows "column_index_entry did df col =
           Inr \<lparr>index_dataset_id = did, column_name = col, data_type = d, distinct_count = 0,
                min_value = None, max_value = None, sample_values = []\<rparr>"
proof -
  have "list_all (\<lambda>c. c = None) (map snd (map (\<lambda>r. (fst r, snd r ! j)) (rows df)))"
    using assms(2) by (simp add: col_all_null_def col_cells_def comp_def)
  then have "concat (map (\<lambda>(i, v). case v of None \<Rightarrow> [] | Some x \<Rightarrow> [x])
                 (map (\<lambda>r. (fst r, snd r ! j)) (rows df))) = []"
    by (rule col_data_all_null)
  with assms(1) show ?thesis
    by (simp add: column_index_entry_def)
qed

lemma build_column_index_loop_returns:
  "\<forall>c\<in>set cols. \<exists>e. column_index_entry did df c = Inr e \<Longrightarrow>
     \<exists>db'. build_column_index_loop did df cols db = (Inr (), db')"
proof (induction cols arbitrary: db)
  case Nil
  show ?case by simp
next
  case (Cons c cols)
  from Cons.prems obtain e where e: "column_index_entry did df c = Inr e"
    by auto
  from Cons.prems have "\<forall>c\<in>set cols. \<exists>e. column_index_entry did df c = Inr e"
    by simp
  from Cons.IH [OF this, of "add_column_index e db"] e show ?case
    by simp
qed

lemma build_column_index_distinct:
  assumes "distinct (col_names df)"
  shows "\<exists>db'. build_column_index db did df = (Inr (), db')"
proof -
  have "\<exists>e. column_index_entry did df c = Inr e" if "c \<in> set (col_names df)" for c
  proof -
    from that obtain j where "j < length (columns df)" and "c = fst (columns df ! j)"
      by (auto simp: col_names_def in_set_conv_nth)
    with getitem_distinct [OF assms, of j] show ?thesis
      by (simp add: column_index_entry_def Let_def)
  qed
  then show ?thesis
    unfolding build_column_index_def by (intro build_column_index_loop_returns) blast
qed

lemma all_null_cols_member:
  "j < length (columns t) \<Longrightarrow> col_all_null t j \<Longrightarrow> fst (columns t ! j) \<in> set (all_null_cols t)"
  by (auto simp: all_null_cols_def)

text \<open>
  C6. Let the validator return a non-empty cleaned frame with distinct labels, and let
  column \<open>j\<close> of it have only missing values. Then building the column index succeeds
  and the entry of that column has \<open>distinct_count\<close> 0, no \<open>min_value\<close>, no \<open>max_value\<close>
  and no sample values; the last entry of the error log is the \<open>all_null_columns\<close> entry
  and it lists the column; and the cleaned frame has as many columns as the input, the
  column among them.
\<close>

theorem all_null_column_indexed_and_logged:
  assumes valid: "validate_and_clean_data dedup raw = Inr (df, errors)"
    and nonempty: "rows df \<noteq> []"
    and names: "distinct (col_names df)"
    and j: "j < length (columns df)"
    and null: "col_all_null df j"
  shows "(\<exists>db'. build_column_index db did df = (Inr (), db')
            \<and> added_index db db' ! j =
                \<lparr>index_dataset_id = did, column_name = fst (columns df ! j),
                 data_type = snd (columns df ! j), distinct_count = 0,
                 min_value = None, max_value = None, sample_values = []\<rparr>)
       \<and> errors \<noteq> []
       \<and> (\<exists>cols. last errors = AllNullColumns cols ''kept_for_schema_integrity''
               \<and> fst (columns df ! j) \<in> set cols)
       \<and> length (columns df) = length (columns raw)"
proof -
  note v = validate_and_clean_data_Inr [OF valid]
  from build_column_index_distinct [OF names] obtain db' where
    run: "build_column_index db did df = (Inr (), db')"
    by blast
  from build_column_index_loop_Inr [OF run [unfolded build_column_index_def]] obtain es where
    es: "list_all2 (\<lambda>c e. column_index_entry did df c = Inr e) (col_names df) es"
    and db': "db' = db\<lparr>pending := (pending db)\<lparr>column_indexes := column_indexes (pending db) @ es\<rparr>\<rparr>"
    by blast
  have added: "added_index db db' = es"
    by (simp add: added_index_def db')
  have "column_index_entry did df (fst (columns df ! j)) = Inr (es ! j)"
    using es j by (auto simp: list_all2_conv_all_nth col_names_def)
  with column_index_entry_all_null [OF getitem_distinct [OF names j] null, of did]
  have entry: "es ! j = \<lparr>index_dataset_id = did, column_name = fst (columns df ! j),
                 data_type = snd (columns df ! j), distinct_count = 0,
                 min_value = None, max_value = None, sample_values = []\<rparr>"
    by simp
  have mem: "fst (columns df ! j) \<in> set (all_null_cols df)"
    using j null by (rule all_null_cols_member)
  then have "all_null_cols df \<noteq> []"
    by auto
  with v(4) have "errors \<noteq> []"
    and "last errors = AllNullColumns (all_null_cols df) ''kept_for_schema_integrity''"
    by simp_all
  with mem run added entry v(2) show ?thesis
    by auto
qed

theorem all_null_column_indexed_and_logged_witness:
  "validate_and_clean_data (dedup_names env0) with_blank
      = Inr (with_blank, [AllNullColumns [''note''] ''kept_for_schema_integrity''])
   \<and> rows with_blank \<noteq> [] \<and> distinct (col_names with_blank)
   \<and> 1 < length (columns with_blank) \<and> col_all_null with_blank 1
   \<and> (\<exists>db'. build_column_index empty_session 7 with_blank = (Inr (), db')
         \<and> added_index empty_session db' ! 1 =
             \<lparr>index_dataset_id = 7, column_name = ''note'', data_type = ''object'',
              distinct_count = 0, min_value = None, max_value = None, sample_values = []\<rparr>)"
proof -
  have v: "validate_and_clean_data (dedup_names env0) with_blank
      = Inr (with_blank, [AllNullColumns [''note''] ''kept_for_schema_integrity''])"
    by code_simp
  have r: "rows with_blank \<noteq> []" and d: "distinct (col_names with_blank)"
    and l: "1 < length (columns with_blank)" and n: "col_all_null with_blank 1"
    by code_simp+
  have c: "fst (columns with_blank ! 1) = ''note''" "snd (columns with_blank ! 1) = ''object''"
    by (simp_all add: with_blank_def)
  from all_null_column_indexed_and_logged [OF v r d l n, of empty_session 7]
  have "\<exists>db'. build_column_index empty_session 7 with_blank = (Inr (), db')
         \<and> added_index empty_session db' ! 1 =
             \<lparr>index_dataset_id = 7, column_name = ''note'', data_type = ''object'',
              distinct_count = 0, min_value = None, max_value = None, sample_values = []\<rparr>"
    unfolding c by blast
  with v r d l n show ?thesis by blast
qed

section \<open>Frames without missing cells\<close>

lemma duplicated_labels_distinct:
  "distinct xs \<Longrightarrow> set xs \<inter> set seen = {} \<Longrightarrow> duplicated_labels seen xs = []"
  by (induction xs arbitrary: seen) auto

lemma no_null_cell:
  assumes "wf_table t" and "no_null_cells t" and "r \<in> set (rows t)" and "j < length (columns t)"
  shows "snd r ! j \<noteq> None"
proof -
  from assms(1,3) have "length (snd r) = length (columns t)"
    by (simp add: wf_table_def list_all_iff)
  with assms(4) have "snd r ! j \<in> set (snd r)"
    by simp
  moreover from assms(2,3) have "\<forall>c\<in>set (snd r). c \<noteq> None"
    by (simp add: no_null_cells_def list_all_iff)
  ultimately show ?thesis by blast
qed

lemma no_null_no_empty_rows:
  assumes "wf_table t" and "no_null_cells t" and "columns t \<noteq> []"
  shows "filter row_all_null (rows t) = []"
proof -
  have "\<not> row_all_null r" if r: "r \<in> set (rows t)" for r
  proof
    assume "row_all_null r"
    moreover from assms(1) r have "length (snd r) = length (columns t)"
      by (simp add: wf_table_def list_all_iff)
    with assms(3) have "snd r ! 0 \<in> set (snd r)" and "0 < length (columns t)"
      by simp_all
    ultimately have "snd r ! 0 = None"
      by (simp add: row_all_null_def list_all_iff)
    with no_null_cell [OF assms(1,2) r \<open>0 < length (columns t)\<close>] show False
      by simp
  qed
  then show ?thesis by (simp add: filter_empty_conv)
qed

lemma no_null_no_null_cols:
  assumes "wf_table t" and "no_null_cells t" and "rows t \<noteq> []"
  shows "all_null_cols t = []"
proof -
  from assms(3) obtain r where r: "r \<in> set (rows t)"
    by (cases "rows t") auto
  have "\<not> col_all_null t j" if j: "j < length (columns t)" for j
  proof
    assume "col_all_null t j"
    with r have "snd r ! j = None"
      by (auto simp: col_all_null_def col_cells_def list_all_iff)
    with no_null_cell [OF assms(1,2) r j] show False
      by simp
  qed
  then have "filter (col_all_null t) [0..<length (columns t)] = []"
    by (simp add: filter_empty_conv)
  then show ?thesis by (simp add: all_null_cols_def)
qed

text \<open>On a frame without missing cells the loop of the missing-value report changes nothing.\<close>

lemma detect_missing_loop_no_nulls:
  assumes "wf_table df" and "no_null_cells df"
  shows "detect_missing_loop df cols st = Inr st' \<Longrightarrow> st' = st"
proof (induction cols arbitrary: st)
  case Nil
  then show ?case by simp
next
  case (Cons c cols)
  from Cons.prems obtain s where s: "getitem df c = Some s"
    by (cases "getitem df c") auto
  from getitem_Some [OF s] obtain j where j: "j < length (columns df)"
    and it: "items s = map (\<lambda>r. (fst r, snd r ! j)) (rows df)"
    by auto
  have "filter (\<lambda>iv. snd iv = None) (items s) = []"
    unfolding it using no_null_cell [OF assms _ j] by (simp add: filter_empty_conv)
  with Cons.prems s have "detect_missing_loop df cols st = Inr st'"
    by (simp add: Let_def)
  then show ?case by (rule Cons.IH)
qed

lemma detect_missing_loop_returns:
  "\<forall>c\<in>set cols. getitem df c \<noteq> None \<Longrightarrow> \<exists>st'. detect_missing_loop df cols st = Inr st'"
  by (induction cols arbitrary: st) (auto simp: Let_def)

lemma detect_missing_values_no_nulls:
  assumes "wf_table df" and "no_null_cells df" and "detect_missing_values df = Inr report"
  shows "\<not> has_missing report \<and> total_missing_cells report = 0 \<and> columns_with_missing report = []"
proof -
  from assms(3) obtain has rep where
    loop: "detect_missing_loop df (col_names df) (False, []) = Inr (has, rep)"
    and report: "report = \<lparr>has_missing = has,
               total_missing_cells = length (filter (\<lambda>c. c = None) (concat (map snd (rows df)))),
               columns_with_missing = rep\<rparr>"
    by (auto simp: detect_missing_values_def split: sum.splits)
  from detect_missing_loop_no_nulls [OF assms(1,2) loop] have "has = False" and "rep = []"
    by simp_all
  moreover have "filter (\<lambda>c. c = None) (concat (map snd (rows df))) = []"
    using assms(2) by (auto simp: no_null_cells_def list_all_iff filter_empty_conv)
  ultimately show ?thesis using report by simp
qed

lemma detect_missing_values_distinct:
  assumes "distinct (col_names df)"
  shows "\<exists>report. detect_missing_values df = Inr report"
proof -
  have "\<forall>c\<in>set (col_names df). getitem df c \<noteq> None"
  proof
    fix c assume "c \<in> set (col_names df)"
    then obtain j where "j < length (columns df)" and "c = fst (columns df ! j)"
      by (auto simp: col_names_def in_set_conv_nth)
    with getitem_distinct [OF assms, of j] show "getitem df c \<noteq> None" by simp
  qed
  from detect_missing_loop_returns [OF this, of "(False, [])"] show ?thesis
    by (auto simp: detect_missing_values_def)
qed

lemma datasets_insert_data_rows:
  assumes "insert_data_rows sha db did df = (n, db')"
  shows "datasets (pending db') = datasets (pending db)"
proof -
  obtain new where "fold (insert_row sha did (col_names df)) (rows df) ({}, 0, db) =
      (set (map (\<lambda>r. calculate_row_hash sha (row_to_dict (col_names df) (snd r))) (rows df)),
       length (filter is_duplicate new),
       db\<lparr>pending := (pending db)\<lparr>data_rows := data_rows (pending db) @ new\<rparr>\<rparr>)"
    using insert_loop [of sha did "col_names df" "rows df" db] by blast
  with assms have "db' = db\<lparr>pending := (pending db)\<lparr>data_rows := data_rows (pending db) @ new\<rparr>\<rparr>"
    by (simp add: insert_data_rows_def)
  then show ?thesis by simp
qed

lemma datasets_build_column_index:
  assumes "build_column_index db did df = (Inr (), db')"
  shows "datasets (pending db') = datasets (pending db)"
  using build_column_index_loop_Inr [OF assms [unfolded build_column_index_def]] by auto

lemma commit_accepted:
  "commit ok db = (Inr u, db') \<Longrightarrow> committed db' = pending db"
  by (auto simp: commit_def split: if_splits)

lemma create_dataset_metadata_Inr:
  "create_dataset_metadata ok db info = (Inr m, db') \<Longrightarrow>
     datasets (pending db') = datasets (pending db) @ [m]
     \<and> has_missing_values m = has_missing_values info \<and> error_log m = error_log info"
  by (auto simp: create_dataset_metadata_def Let_def add_dataset_def split: if_splits)

text \<open>What an upload went through whose function returned, and the record it stored.\<close>

lemma upload_csv_handler_Inr:
  assumes "upload_csv_handler e db file = (Inr resp, db')"
  shows "\<exists>raw df errors report.
           parse_csv e (content file) = Inr raw
         \<and> validate_and_clean_data (dedup_names e) raw = Inr (df, errors)
         \<and> detect_missing_values df = Inr report
         \<and> resp_has_missing_values resp = has_missing report
         \<and> (\<exists>m\<in>set (datasets (committed db')).
               meta_id m = resp_dataset_id resp
             \<and> has_missing_values m = has_missing report
             \<and> error_log m = errors)"
proof -
  from assms have tried: "upload_csv_try e db file = (Inr resp, db')"
    by (auto simp: upload_csv_handler_def split: prod.splits sum.splits)
  then obtain raw df errors report schema name m db1 n db2 db3 where
    parse: "parse_csv e (content file) = Inr raw"
    and valid: "validate_and_clean_data (dedup_names e) raw = Inr (df, errors)"
    and detect: "detect_missing_values df = Inr report"
    and created: "create_dataset_metadata (flush_ok e) db
        \<lparr>meta_id = 0, dataset_name = name, original_filename = filename file,
         row_count = length (rows df), column_count = length (columns df),
         file_hash = calculate_file_hash (sha256 e) (content file),
         schema_definition = schema, has_missing_values = has_missing report,
         missing_value_report = report, duplicate_count = 0, error_log = errors,
         description = description_param file\<rparr> = (Inr m, db1)"
    and inserted: "insert_data_rows (sha256 e) db1 (meta_id m) df = (n, db2)"
    and built: "build_column_index (set_duplicate_count (meta_id m) n db2) (meta_id m) df = (Inr (), db3)"
    and committed_ok: "commit (commit_ok e) db3 = (Inr (), db')"
    and resp: "resp_has_missing_values resp = has_missing report"
      "resp_dataset_id resp = meta_id m"
    unfolding upload_csv_try_def Let_def
    by (auto split: option.splits sum.splits prod.splits if_splits)
  from create_dataset_metadata_Inr [OF created]
  have d1: "datasets (pending db1) = datasets (pending db) @ [m]"
    and hm: "has_missing_values m = has_missing report" and el: "error_log m = errors"
    by simp_all
  have d2: "datasets (pending db2) = datasets (pending db1)"
    using inserted by (rule datasets_insert_data_rows)
  have d3: "datasets (pending db3) =
      map (\<lambda>x. if meta_id x = meta_id m then x\<lparr>duplicate_count := n\<rparr> else x) (datasets (pending db2))"
    using datasets_build_column_index [OF built] by (simp add: set_duplicate_count_def)
  have d4: "committed db' = pending db3"
    using committed_ok by (rule commit_accepted)
  have "m\<lparr>duplicate_count := n\<rparr> \<in> set (datasets (committed db'))"
    unfolding d4 d3 d2 d1 by simp
  moreover have "meta_id (m\<lparr>duplicate_count := n\<rparr>) = resp_dataset_id resp
      \<and> has_missing_values (m\<lparr>duplicate_count := n\<rparr>) = has_missing report
      \<and> error_log (m\<lparr>duplicate_count := n\<rparr>) = errors"
    using hm el resp by simp
  ultimately show ?thesis using parse valid detect resp by blast
qed

text \<open>
  The frame of the first parser call is rectangular, has a column and has no missing
  cell.
\<close>

lemma frame_of_wf: "wf_table (frame_of p)"
  by (simp add: wf_table_def frame_of_def list_all_iff)

lemma frame_of_no_null_cells: "no_null_cells (frame_of p)"
  by (simp add: no_null_cells_def frame_of_def list_all_iff)

lemma primary_parse_Some:
  assumes "primary_parse e bytes = Some raw"
  shows "wf_table raw \<and> no_null_cells raw \<and> columns raw \<noteq> []"
proof -
  from assms obtain p where "labels p \<noteq> []" and "raw = frame_of p"
    by (auto simp: primary_parse_def split: option.splits if_splits)
  then show ?thesis
    using frame_of_wf [of p] frame_of_no_null_cells [of p] by (simp add: frame_of_def)
qed

text \<open>
  C9 as stated fails: the file that holds only the header line \<^verbatim>\<open>a\<close> is parsed by the
  first call to a frame with one column and no rows; it has no missing cell, and the
  validator flags its column as all-null.
\<close>

theorem primary_parse_no_missing_counterexample:
  "primary_parse env0 ''a\<newline>'' = Some header_only
   \<and> no_null_cells header_only
   \<and> validate_and_clean_data (dedup_names env0) header_only
       = Inr (header_only, [AllNullColumns [''a''] ''kept_for_schema_integrity''])"
  by code_simp

text \<open>
  C9, amended. When the bytes of an upload are parsed by the first parser call, every
  cell of the parsed frame is a string, none is missing, and that frame is the one the
  upload works on. Consequently the validator removes no row and logs no \<open>empty_rows\<close>
  entry; the missing-value report has \<open>has_missing\<close> false, and so have the returned dict
  and the stored dataset record of an upload of these bytes whose function returns; and
  when the frame has at least one row no column is flagged as all-null. When it has no
  rows, every column is flagged.
\<close>

theorem primary_parse_no_missing:
  assumes parsed: "primary_parse e bytes = Some raw"
    and valid: "validate_and_clean_data (dedup_names e) raw = Inr (df, errors)"
  shows "parse_csv e bytes = Inr raw
       \<and> no_null_cells raw
       \<and> rows df = rows raw \<and> (\<forall>n ps. EmptyRows n ps \<notin> set errors)
       \<and> (rows raw \<noteq> [] \<longrightarrow> (\<forall>cs a. AllNullColumns cs a \<notin> set errors))
       \<and> (rows raw = [] \<longrightarrow> AllNullColumns (col_names df) ''kept_for_schema_integrity'' \<in> set errors)
       \<and> (\<forall>report. detect_missing_values df = Inr report \<longrightarrow>
             \<not> has_missing report \<and> total_missing_cells report = 0)
       \<and> (distinct (col_names df) \<longrightarrow> (\<exists>report. detect_missing_values df = Inr report))
       \<and> (\<forall>db file resp db'.
             content file = bytes \<longrightarrow> upload_csv_handler e db file = (Inr resp, db') \<longrightarrow>
               \<not> resp_has_missing_values resp
             \<and> (\<exists>m\<in>set (datasets (committed db')).
                   meta_id m = resp_dataset_id resp \<and> \<not> has_missing_values m))"
proof -
  from primary_parse_Some [OF parsed]
  have wf: "wf_table raw" and cells: "no_null_cells raw" and cols: "columns raw \<noteq> []"
    by simp_all
  note v = validate_and_clean_data_Inr [OF valid]
  have none_empty: "filter row_all_null (rows raw) = []"
    using wf cells cols by (rule no_null_no_empty_rows)
  have rows: "rows df = rows raw"
    using v(1) none_empty by (simp add: filter_not_all_null)
  have wf': "wf_table df"
    using wf rows v(2) by (simp add: wf_table_def)
  have cells': "no_null_cells df"
    using cells rows by (simp add: no_null_cells_def)
  have errs: "errors =
          (if duplicated_labels [] (col_names raw) \<noteq> []
             then [DuplicateColumns (duplicated_labels [] (col_names raw))] else [])
          @ (if all_null_cols df \<noteq> []
             then [AllNullColumns (all_null_cols df) ''kept_for_schema_integrity''] else [])"
    using v(4) none_empty by simp
  have a: "parse_csv e bytes = Inr raw"
    using parsed by (simp add: parse_csv_def)
  have b: "\<forall>n ps. EmptyRows n ps \<notin> set errors"
    unfolding errs by simp
  have c: "\<forall>cs a. AllNullColumns cs a \<notin> set errors" if "rows raw \<noteq> []"
  proof -
    from that rows have "rows df \<noteq> []" by simp
    with wf' cells' have "all_null_cols df = []" by (rule no_null_no_null_cols)
    then show ?thesis unfolding errs by simp
  qed
  have d: "AllNullColumns (col_names df) ''kept_for_schema_integrity'' \<in> set errors"
    if "rows raw = []"
  proof -
    from that rows have "all_null_cols df = col_names df"
      by (intro all_null_cols_no_rows) simp
    moreover from cols v(2) have "col_names df \<noteq> []"
      by (auto simp: col_names_def)
    ultimately show ?thesis unfolding errs by simp
  qed
  have f: "\<forall>report. detect_missing_values df = Inr report \<longrightarrow>
             \<not> has_missing report \<and> total_missing_cells report = 0"
    using detect_missing_values_no_nulls [OF wf' cells'] by blast
  have g: "distinct (col_names df) \<longrightarrow> (\<exists>report. detect_missing_values df = Inr report)"
    using detect_missing_values_distinct by blast
  have h: "\<not> resp_has_missing_values resp
             \<and> (\<exists>m\<in>set (datasets (committed db')).
                   meta_id m = resp_dataset_id resp \<and> \<not> has_missing_values m)"
    if "content upl = bytes" and "upload_csv_handler e db upl = (Inr resp, db')"
    for db upl resp db'
  proof -
    from upload_csv_handler_Inr [OF that(2)] obtain raw' df' errors' report where
      "parse_csv e (content upl) = Inr raw'"
      and "validate_and_clean_data (dedup_names e) raw' = Inr (df', errors')"
      and rep: "detect_missing_values df' = Inr report"
      and flag: "resp_has_missing_values resp = has_missing report"
      and stored: "\<exists>m\<in>set (datasets (committed db')).
               meta_id m = resp_dataset_id resp \<and> has_missing_values m = has_missing report
             \<and> error_log m = errors'"
      by blast
    with a valid that(1) have "df' = df"
      by simp
    with rep f have "\<not> has_missing report"
      by blast
    with flag stored show ?thesis by auto
  qed
  from a cells rows b c d f g h show ?thesis by blast
qed

theorem primary_parse_no_missing_witness:
  "primary_parse env0 people2_csv = Some people2
   \<and> no_null_cells people2 \<and> rows people2 \<noteq> []
   \<and> validate_and_clean_data (dedup_names env0) people2 = Inr (people2, [])
   \<and> distinct (col_names people2)
   \<and> (\<exists>report. detect_missing_values people2 = Inr report \<and> \<not> has_missing report)
   \<and> content people2_upload = people2_csv
   \<and> (\<exists>resp. upload_csv_handler env0 empty_session people2_upload = (Inr resp, stored_people2)
         \<and> \<not> resp_has_missing_values resp)
   \<and> \<not> has_missing_values (hd (datasets (committed stored_people2)))"
proof -
  have p: "primary_parse env0 people2_csv = Some people2"
    by code_simp
  have r: "rows people2 \<noteq> []" and d: "distinct (col_names people2)"
    by code_simp+
  have v: "validate_and_clean_data (dedup_names env0) people2 = Inr (people2, [])"
    by code_simp
  note T = primary_parse_no_missing [OF p v]
  from T have n: "no_null_cells people2"
    by blast
  from T d have rep: "\<exists>report. detect_missing_values people2 = Inr report \<and> \<not> has_missing report"
    by blast
  have c: "content people2_upload = people2_csv"
    by (simp add: people2_upload_def)
  have "upload_csv env0 empty_session people2_upload = (Inl ResponseValidationError, stored_people2)"
    by code_simp
  with upload_csv_cases [of env0 empty_session people2_upload "Inl ResponseValidationError" stored_people2]
  obtain resp where ret: "upload_csv_handler env0 empty_session people2_upload = (Inr resp, stored_people2)"
    by auto
  with T c have "\<not> resp_has_missing_values resp"
    by blast
  with ret have up: "\<exists>resp. upload_csv_handler env0 empty_session people2_upload = (Inr resp, stored_people2)
         \<and> \<not> resp_has_missing_values resp"
    by blast
  have st: "\<not> has_missing_values (hd (datasets (committed stored_people2)))"
    by code_simp
  from p n r v d rep c up st show ?thesis by blast
qed

section \<open>The row hash\<close>

lemma filter_key_distinct:
  "distinct (map fst xs) \<Longrightarrow> k \<in> set xs \<Longrightarrow> filter (\<lambda>x. fst k = fst x) xs = [k]"
proof (induction xs)
  case Nil
  then show ?case by simp
next
  case (Cons x xs)
  show ?case
  proof (cases "k = x")
    case True
    with Cons.prems have "filter (\<lambda>y. fst k = fst y) xs = []"
      by (auto simp: filter_empty_conv rev_image_eqI)
    with True show ?thesis by simp
  next
    case False
    with Cons.prems have "k \<in> set xs" and "fst k \<noteq> fst x"
      by (auto simp: rev_image_eqI)
    with Cons show ?thesis by simp
  qed
qed

text \<open>Two dicts with the same content have the same items in key order.\<close>

lemma sort_key_dict_unique:
  assumes "distinct (map fst d1)" and "distinct (map fst d2)" and "map_of d1 = map_of d2"
  shows "sort_key fst d1 = sort_key fst d2"
proof (rule properties_for_sort_key)
  have sets: "set d1 = set d2"
    using assms by (simp add: map_of_inject_set)
  have "distinct d1" and "distinct d2"
    using assms(1,2) by (simp_all add: distinct_map)
  with sets show "mset (sort_key fst d2) = mset d1"
    by (simp add: set_eq_iff_mset_eq_distinct)
  show "sorted (map fst (sort_key fst d2))"
    by simp
  fix k assume "k \<in> set (sort_key fst d2)"
  then have k2: "k \<in> set d2" by simp
  with sets have k1: "k \<in> set d1" by simp
  have "filter (\<lambda>x. fst k = fst x) (sort_key fst d2) = filter (\<lambda>x. fst x = fst k) (sort_key fst d2)"
    by (rule filter_cong) auto
  also have "\<dots> = filter (\<lambda>x. fst x = fst k) d2"
    by (rule sort_key_stable)
  also have "\<dots> = filter (\<lambda>x. fst k = fst x) d2"
    by (rule filter_cong) auto
  also have "\<dots> = [k]"
    using assms(2) k2 by (rule filter_key_distinct)
  also have "\<dots> = filter (\<lambda>x. fst k = fst x) d1"
    using filter_key_distinct [OF assms(1) k1] by simp
  finally show "filter (\<lambda>x. fst k = fst x) (sort_key fst d2) = filter (\<lambda>x. fst k = fst x) d1" .
qed

text \<open>The dicts that row insertion hashes have distinct keys.\<close>

lemma row_to_dict_distinct: "distinct (map fst (row_to_dict names cells))"
proof -
  have "distinct (map fst d) \<Longrightarrow>
          distinct (map fst (fold (\<lambda>(k, v) d. AList.update k v d) kvs d))" for kvs and d :: "(string \<times> cell) list"
    by (induction kvs arbitrary: d) (auto simp: distinct_update)
  then show ?thesis by (simp add: row_to_dict_def)
qed

lemma rebind_key: "rebind a w (a, v) = (a, w)"
  by (simp add: rebind_def)

lemma rebind_other: "k \<noteq> a \<Longrightarrow> rebind a w (k, v) = (k, v)"
  by (simp add: rebind_def)

lemma update_rebind:
  "distinct (map fst d) \<Longrightarrow> AList.update a w d = map (rebind a w) (AList.update a v d)"
proof (induction d)
  case Nil
  show ?case by (simp add: rebind_def)
next
  case (Cons kv d)
  show ?case
  proof (cases "fst kv = a")
    case True
    with Cons.prems have "\<forall>x\<in>set d. fst x \<noteq> a"
      by (auto simp: rev_image_eqI)
    then have "map (rebind a w) d = d"
      by (induction d) (auto simp: rebind_def)
    with True show ?thesis by (cases kv) (simp add: rebind_key)
  next
    case False
    with Cons show ?thesis by (cases kv) (simp add: rebind_other)
  qed
qed

lemma insort_key_rebind:
  "insort_key fst (rebind a w x) (map (rebind a w) xs) = map (rebind a w) (insort_key fst x xs)"
  by (induction xs) (auto simp: rebind_def)

lemma sort_key_rebind:
  "sort_key fst (map (rebind a w) xs) = map (rebind a w) (sort_key fst xs)"
  by (induction xs) (simp_all add: insort_key_rebind)

lemma join_append_Cons:
  "join sep (us @ x # vs) =
     concat (map (\<lambda>u. u @ sep) us) @ x @ concat (map (\<lambda>v. sep @ v) vs)"
proof (induction us)
  case Nil
  show ?case by (induction vs arbitrary: x) simp_all
next
  case (Cons u us)
  then show ?case by (cases us) simp_all
qed

lemma json_value_None_Some: "json_value None @ s \<noteq> json_value (Some w) @ t"
  by (simp add: json_value_def json_string_def)

text \<open>
  The serialisations of a dict with a key bound to \<^verbatim>\<open>null\<close> and of the same dict with the
  key bound to a string agree up to the value of that key, where the one continues with
  the letter \<open>n\<close> and the other with a quote.
\<close>

lemma json_dumps_null_vs_string:
  assumes "distinct (map fst d)"
  shows "json_dumps_sorted (AList.update a None d) \<noteq> json_dumps_sorted (AList.update a (Some w) d)"
proof -
  let ?d1 = "AList.update a None d"
  let ?s1 = "sort_key fst ?d1"
  have keys: "distinct (map fst ?s1)"
  proof -
    have "mset (map fst ?s1) = mset (map fst ?d1)"
      by simp
    moreover have "distinct (map fst ?d1)"
      using assms by (simp add: distinct_update)
    ultimately show ?thesis by (metis mset_eq_imp_distinct_iff)
  qed
  have "(a, None) \<in> set ?d1"
    by (induction d) auto
  then have "(a, None) \<in> set ?s1"
    by simp
  then obtain xs ys where split: "?s1 = xs @ (a, None) # ys"
    by (meson split_list)
  with keys have "\<forall>x\<in>set xs. fst x \<noteq> a" and "\<forall>y\<in>set ys. fst y \<noteq> a"
    by (auto simp: rev_image_eqI)
  then have "map (rebind a (Some w)) xs = xs" and "map (rebind a (Some w)) ys = ys"
    by (auto simp: rebind_def map_idI)
  then have s2: "sort_key fst (AList.update a (Some w) d) = xs @ (a, Some w) # ys"
    using update_rebind [OF assms, of a "Some w" None] split
    by (simp add: sort_key_rebind rebind_def)
  let ?pre = "''{'' @ concat (map (\<lambda>u. u @ '', '') (map json_item xs)) @ json_string a @ '': ''"
  let ?post = "concat (map (\<lambda>v. '', '' @ v) (map json_item ys)) @ ''}''"
  have "json_dumps_sorted (AList.update a None d) = ?pre @ json_value None @ ?post"
    unfolding json_dumps_sorted_def split by (simp add: join_append_Cons json_item_def)
  moreover have "json_dumps_sorted (AList.update a (Some w) d) = ?pre @ json_value (Some w) @ ?post"
    unfolding json_dumps_sorted_def s2 by (simp add: join_append_Cons json_item_def)
  ultimately show ?thesis
    using json_value_None_Some [of ?post w ?post] by simp
qed

text \<open>
  Two row dicts with the same column-to-value content are serialised to the same bytes
  and so have the same row hash, whatever the order of their keys and whatever the
  digest.
\<close>

lemma row_hash_same_content:
  assumes "distinct (map fst d1)" and "distinct (map fst d2)" and "map_of d1 = map_of d2"
  shows "json_dumps_sorted d1 = json_dumps_sorted d2
       \<and> calculate_row_hash sha d1 = calculate_row_hash sha d2"
proof -
  have "json_dumps_sorted d1 = json_dumps_sorted d2"
    using sort_key_dict_unique [OF assms] by (simp add: json_dumps_sorted_def)
  then show ?thesis by (simp add: calculate_row_hash_def)
qed

text \<open>
  For a key bound to \<^verbatim>\<open>null\<close> and the same key bound to a string the bytes that are hashed
  differ, so the two row hashes can only be equal where the digest takes the same value
  on two different byte strings.
\<close>

lemma row_hash_null_vs_string:
  assumes "distinct (map fst d)"
    and "calculate_row_hash sha (AList.update a None d)
           = calculate_row_hash sha (AList.update a (Some w) d)"
  shows "json_dumps_sorted (AList.update a None d) \<noteq> json_dumps_sorted (AList.update a (Some w) d)
       \<and> sha (json_dumps_sorted (AList.update a None d))
           = sha (json_dumps_sorted (AList.update a (Some w) d))"
  using json_dumps_null_vs_string [OF assms(1), of a w] assms(2)
  by (simp add: calculate_row_hash_def)

end
